theory Spec2Isabelle
  imports Complex_Main
begin

section \<open>Decoded JSON and the Python operations the script applies to it\<close>

text \<open>
  The script \<^verbatim>\<open>neo4j-taxii.py\<close> handles records as Python dictionaries decoded from JSON.
  A JSON value is a string, an integer, a float, a boolean, null, an array or an object.
  A float is modelled by the real number it denotes (NaN and the infinities, which are not
  JSON, are outside the model). A nested object is the list of its items in insertion
  order; the record itself, whose keys are looked up, is a partial map. A record is a
  JSON object: \<^verbatim>\<open>load_stix_object\<close> applied to another kind of value raises at the first
  \<^verbatim>\<open>stix_obj.get\<close> and ends in its own handler, with nothing written.
\<close>

datatype jval =
    JStr string
  | JInt int
  | JFloat real
  | JBool bool
  | JNull
  | JList "jval list"
  | JObj "(string \<times> jval) list"

type_synonym stix_obj = "string \<rightharpoonup> jval"

text \<open>
  The exceptions that the script or the store driver can raise. \<open>StatementNotModelled\<close> is
  not one of them: a transaction function of the model returns it when the statement it
  would send is one that the model does not parse (see the section on the graph store).
\<close>

datatype error =
    KeyError
  | AttributeError
  | TypeError
  | CypherSyntaxError
  | CypherValueError
  | ServiceUnavailable
  | TransportError
  | StatementNotModelled

text \<open>\<^verbatim>\<open>d.get(k, default)\<close>\<close>

definition dict_get :: "stix_obj \<Rightarrow> string \<Rightarrow> jval \<Rightarrow> jval" where
  "dict_get d k dflt = (case d k of None \<Rightarrow> dflt | Some v \<Rightarrow> v)"

text \<open>\<^verbatim>\<open>isinstance(v, (str, int, float, bool))\<close>\<close>

fun is_scalar :: "jval \<Rightarrow> bool" where
  "is_scalar (JStr _) = True"
| "is_scalar (JInt _) = True"
| "is_scalar (JFloat _) = True"
| "is_scalar (JBool _) = True"
| "is_scalar _ = False"

text \<open>
  \<^verbatim>\<open>{k: v for k, v in obj.items() if isinstance(v, (str, int, float, bool))}\<close>
  (source lines 83 and 94).
\<close>

definition scalar_props :: "stix_obj \<Rightarrow> stix_obj" where
  "scalar_props obj =
     (\<lambda>k. case obj k of None \<Rightarrow> None | Some v \<Rightarrow> if is_scalar v then Some v else None)"

text \<open>Python truthiness, as used by \<^verbatim>\<open>if source_ref and target_ref\<close> and \<^verbatim>\<open>if has_more and next_token\<close>.\<close>

fun truthy :: "jval \<Rightarrow> bool" where
  "truthy (JStr s) = (s \<noteq> [])"
| "truthy (JInt i) = (i \<noteq> 0)"
| "truthy (JFloat r) = (r \<noteq> 0)"
| "truthy (JBool b) = b"
| "truthy JNull = False"
| "truthy (JList xs) = (xs \<noteq> [])"
| "truthy (JObj kvs) = (kvs \<noteq> [])"

text \<open>
  Iterating a value with \<^verbatim>\<open>for x in v\<close> (or \<^verbatim>\<open>list.extend(v)\<close>): a list yields its elements, a
  string its characters, a dictionary its keys; every other JSON value raises TypeError.
\<close>

fun py_iter :: "jval \<Rightarrow> error + jval list" where
  "py_iter (JList xs) = Inr xs"
| "py_iter (JStr s) = Inr (map (\<lambda>c. JStr [c]) s)"
| "py_iter (JObj kvs) = Inr (map (\<lambda>kv. JStr (fst kv)) kvs)"
| "py_iter _ = Inl TypeError"

text \<open>\<^verbatim>\<open>s.replace(a, b)\<close> for one-character \<^verbatim>\<open>a\<close> and \<^verbatim>\<open>b\<close>.\<close>

definition replace_chr :: "char \<Rightarrow> char \<Rightarrow> string \<Rightarrow> string" where
  "replace_chr a b s = map (\<lambda>c. if c = a then b else c) s"

text \<open>\<^verbatim>\<open>s.upper()\<close> on the ASCII letters (a string is a list of bytes here).\<close>

definition upper_chr :: "char \<Rightarrow> char" where
  "upper_chr c =
     (let n = (of_char c :: nat) in if 97 \<le> n \<and> n \<le> 122 then char_of (n - 32) else c)"

definition upper :: "string \<Rightarrow> string" where
  "upper s = map upper_chr s"

text \<open>
  \<^verbatim>\<open>v.replace(...)\<close> and \<^verbatim>\<open>v.upper()\<close> exist on strings only: on any other JSON value the
  attribute lookup raises AttributeError.
\<close>

fun as_str :: "jval \<Rightarrow> error + string" where
  "as_str (JStr s) = Inr s"
| "as_str _ = Inl AttributeError"

section \<open>Label and edge-type names\<close>

text \<open>
  Source line 93 builds the node label with \<^verbatim>\<open>.replace('-', '_')\<close>; source lines 104 and 115
  build the edge type with \<^verbatim>\<open>.replace('-', '_').replace(' ', '_')\<close>.
\<close>

definition node_label :: "string \<Rightarrow> string" where
  "node_label t = replace_chr (CHR ''-'') (CHR ''_'') t"

definition edge_type :: "string \<Rightarrow> string" where
  "edge_type t = replace_chr (CHR '' '') (CHR ''_'') (replace_chr (CHR ''-'') (CHR ''_'') t)"

section \<open>The graph store\<close>

text \<open>
  The store is a property graph. A vertex has labels and properties; an edge has a start
  vertex, an end vertex, a type and properties. The store gives vertices and edges an
  identity of their own: here it is the position in the list, and nothing is ever deleted,
  so two entries with equal contents are two vertices (or two edges).
\<close>

record vertex =
  v_labels :: "string list"
  v_props :: "string \<rightharpoonup> jval"

record edge =
  e_src :: nat
  e_tgt :: nat
  e_type :: string
  e_props :: "string \<rightharpoonup> jval"

record graph =
  vertices :: "vertex list"
  edges :: "edge list"

text \<open>
  The label or type is spliced into the statement text as it is (source lines 96, 108 and
  119). The model reads two kinds of spliced names. A plain identifier (a letter or
  underscore, then letters, digits and underscores) is one label or one type. Two plain
  identifiers with one space between them, the second not the keyword \<^verbatim>\<open>WHERE\<close>, give a
  statement that the store rejects as a syntax error: an identifier cannot follow a label
  or a type. Any other name (labels joined by colons, text that closes the pattern and
  adds clauses of its own, and so on) gives a statement that the model does not parse. Of
  such a statement nothing is assumed: the transaction function returns
  \<open>StatementNotModelled\<close>, and \<open>execute_write\<close> below takes what the store does with the
  statement from the store itself.
\<close>

definition ident_start :: "char \<Rightarrow> bool" where
  "ident_start c =
     (let n = (of_char c :: nat) in (65 \<le> n \<and> n \<le> 90) \<or> (97 \<le> n \<and> n \<le> 122) \<or> n = 95)"

definition ident_part :: "char \<Rightarrow> bool" where
  "ident_part c = (ident_start c \<or> (let n = (of_char c :: nat) in 48 \<le> n \<and> n \<le> 57))"

fun cypher_name_ok :: "string \<Rightarrow> bool" where
  "cypher_name_ok [] = False"
| "cypher_name_ok (c # cs) = (ident_start c \<and> list_all ident_part cs)"

definition rejected_name :: "string \<Rightarrow> bool" where
  "rejected_name t =
     (let w1 = takeWhile (\<lambda>c. c \<noteq> CHR '' '') t;
          rest = dropWhile (\<lambda>c. c \<noteq> CHR '' '') t
      in cypher_name_ok w1 \<and> rest \<noteq> [] \<and> cypher_name_ok (tl rest) \<and> upper (tl rest) \<noteq> ''WHERE'')"

definition name_error :: "string \<Rightarrow> error" where
  "name_error t = (if rejected_name t then CypherSyntaxError else StatementNotModelled)"

text \<open>
  A property holds a scalar or an array of scalars of one kind; null and maps cannot be
  stored, and a MERGE whose key is such a value is rejected by the store.
\<close>

fun kind :: "jval \<Rightarrow> nat" where
  "kind (JStr _) = 0"
| "kind (JInt _) = 1"
| "kind (JFloat _) = 2"
| "kind (JBool _) = 3"
| "kind _ = 4"

fun storable :: "jval \<Rightarrow> bool" where
  "storable (JList xs) = (list_all is_scalar xs \<and> list_all (\<lambda>x. kind x = kind (hd xs)) xs)"
| "storable v = is_scalar v"

text \<open>The pattern \<^verbatim>\<open>{id: $x}\<close>: the property is present and equal to the parameter; null equals nothing.\<close>

definition has_id :: "(string \<rightharpoonup> jval) \<Rightarrow> jval \<Rightarrow> bool" where
  "has_id ps x = (x \<noteq> JNull \<and> ps ''id'' = Some x)"

text \<open>\<^verbatim>\<open>MATCH (v {id: $x})\<close>: the vertices (by position) whose id is \<^verbatim>\<open>x\<close>, whatever their labels.\<close>

definition match_ids :: "vertex list \<Rightarrow> jval \<Rightarrow> nat list" where
  "match_ids vs x = map fst (filter (\<lambda>iv. has_id (v_props (snd iv)) x) (enumerate 0 vs))"

text \<open>
  \<^verbatim>\<open>MERGE (n:label { id: $id }) SET n += $props\<close> (source lines 95 to 98): every vertex with
  the label and the id gets the properties merged in, later values winning; when there is
  none, one vertex with that label and id is created and then receives the properties.
\<close>

definition node_hit :: "string \<Rightarrow> jval \<Rightarrow> vertex \<Rightarrow> bool" where
  "node_hit label x v = (label \<in> set (v_labels v) \<and> has_id (v_props v) x)"

definition merge_node :: "string \<Rightarrow> jval \<Rightarrow> stix_obj \<Rightarrow> graph \<Rightarrow> error + graph" where
  "merge_node label x props g =
     (if \<not> cypher_name_ok label then Inl (name_error label)
      else if \<not> storable x then Inl CypherValueError
      else if list_ex (node_hit label x) (vertices g)
      then Inr (g\<lparr>vertices :=
                  map (\<lambda>v. if node_hit label x v then v\<lparr>v_props := v_props v ++ props\<rparr> else v)
                      (vertices g)\<rparr>)
      else Inr (g\<lparr>vertices :=
                  vertices g @ [\<lparr>v_labels = [label], v_props = [''id'' \<mapsto> x] ++ props\<rparr>]\<rparr>))"

text \<open>
  \<^verbatim>\<open>MATCH (source {id: $source_id}) MATCH (target {id: $target_id})
  MERGE (source)-[r:TYPE]->(target)\<close> (source lines 105 to 109): for every matched pair, an
  edge of that type between the two is created unless one exists already.
\<close>

definition edge_hit :: "nat \<Rightarrow> nat \<Rightarrow> string \<Rightarrow> edge \<Rightarrow> bool" where
  "edge_hit i j ty e = (e_src e = i \<and> e_tgt e = j \<and> e_type e = ty)"

definition merge_edge_row :: "string \<Rightarrow> graph \<Rightarrow> nat \<times> nat \<Rightarrow> graph" where
  "merge_edge_row ty g ij =
     (if list_ex (edge_hit (fst ij) (snd ij) ty) (edges g) then g
      else g\<lparr>edges := edges g @ [\<lparr>e_src = fst ij, e_tgt = snd ij, e_type = ty, e_props = Map.empty\<rparr>]\<rparr>)"

definition merge_edge :: "jval \<Rightarrow> jval \<Rightarrow> string \<Rightarrow> graph \<Rightarrow> error + graph" where
  "merge_edge source_id target_id ty g =
     (if \<not> cypher_name_ok ty then Inl (name_error ty)
      else Inr (foldl (merge_edge_row ty) g
                  (List.product (match_ids (vertices g) source_id)
                                (match_ids (vertices g) target_id))))"

text \<open>
  \<^verbatim>\<open>MATCH (source {id: $source_id}) MATCH (target {id: $target_id})
  MERGE (source)-[r:TYPE {id: $relationship_id}]->(target) SET r += $props\<close> (source lines
  116 to 121): for every matched pair, the edges of that type and id between the two get
  the properties merged in; when there is none, one is created with that id and then
  receives the properties. A null (or otherwise unstorable) id is rejected when the MERGE
  is reached, that is, when there is a matched pair.
\<close>

definition keyed_edge_hit :: "nat \<Rightarrow> nat \<Rightarrow> string \<Rightarrow> jval \<Rightarrow> edge \<Rightarrow> bool" where
  "keyed_edge_hit i j ty rid e = (edge_hit i j ty e \<and> has_id (e_props e) rid)"

definition merge_keyed_edge_row :: "string \<Rightarrow> jval \<Rightarrow> stix_obj \<Rightarrow> graph \<Rightarrow> nat \<times> nat \<Rightarrow> graph" where
  "merge_keyed_edge_row ty rid props g ij =
     (if list_ex (keyed_edge_hit (fst ij) (snd ij) ty rid) (edges g)
      then g\<lparr>edges :=
              map (\<lambda>e. if keyed_edge_hit (fst ij) (snd ij) ty rid e
                        then e\<lparr>e_props := e_props e ++ props\<rparr> else e)
                  (edges g)\<rparr>
      else g\<lparr>edges := edges g @
              [\<lparr>e_src = fst ij, e_tgt = snd ij, e_type = ty, e_props = [''id'' \<mapsto> rid] ++ props\<rparr>]\<rparr>)"

definition merge_keyed_edge ::
  "jval \<Rightarrow> jval \<Rightarrow> string \<Rightarrow> jval \<Rightarrow> stix_obj \<Rightarrow> graph \<Rightarrow> error + graph" where
  "merge_keyed_edge source_id target_id ty rid props g =
     (let rows = List.product (match_ids (vertices g) source_id)
                              (match_ids (vertices g) target_id)
      in if \<not> cypher_name_ok ty then Inl (name_error ty)
         else if rows \<noteq> [] \<and> \<not> storable rid then Inl CypherValueError
         else Inr (foldl (merge_keyed_edge_row ty rid props) g rows))"

section \<open>The transaction functions of \<^verbatim>\<open>Neo4jHandler\<close>\<close>

text \<open>
  \<^verbatim>\<open>_create_node\<close> (source lines 91 to 99). The label comes from \<^verbatim>\<open>obj.get("type", "STIXObject")\<close>;
  \<^verbatim>\<open>obj["id"]\<close> raises KeyError when the record has no id, before the statement is sent.
\<close>

definition create_node :: "stix_obj \<Rightarrow> graph \<Rightarrow> error + graph" where
  "create_node obj g =
     (case as_str (dict_get obj ''type'' (JStr ''STIXObject'')) of
        Inl e \<Rightarrow> Inl e
      | Inr t \<Rightarrow>
          (let label = node_label t;
               props = scalar_props obj
           in case obj ''id'' of
                None \<Rightarrow> Inl KeyError
              | Some x \<Rightarrow> merge_node label x props g))"

text \<open>\<^verbatim>\<open>_create_relationship\<close> (source lines 101 to 110).\<close>

definition create_relationship :: "jval \<Rightarrow> jval \<Rightarrow> string \<Rightarrow> graph \<Rightarrow> error + graph" where
  "create_relationship source_id target_id rel_type g =
     merge_edge source_id target_id (edge_type rel_type) g"

text \<open>\<^verbatim>\<open>_create_stix_relationship\<close> (source lines 112 to 127).\<close>

definition create_stix_relationship ::
  "jval \<Rightarrow> jval \<Rightarrow> string \<Rightarrow> jval \<Rightarrow> stix_obj \<Rightarrow> graph \<Rightarrow> error + graph" where
  "create_stix_relationship source_id target_id rel_type relationship_id props g =
     merge_keyed_edge source_id target_id (edge_type rel_type) relationship_id props g"

section \<open>Write transactions\<close>

text \<open>
  \<^verbatim>\<open>session.execute_write(fn, *args)\<close> runs one transaction function in a transaction of its
  own: the transaction commits when the function returns and is rolled back, the exception
  passing on to the caller, when it raises. The store may also refuse a transaction for
  reasons of its own (it is down, the connection is lost); \<open>faults\<close> lists, for the
  transactions to come, whether the store refuses them, and past its end none is refused.
  A refused transaction is one that \<^verbatim>\<open>execute_write\<close> gives up on: it changes nothing and
  raises. The session of source line 50 is only a handle; the store is reached when a
  transaction runs. \<open>issued\<close> records the calls made, in order.

  \<open>beyond\<close> is what the store does with the statements that the model does not parse: for
  the call that sends the statement and the graph it meets, the exception it raises or
  the graph it leaves. It belongs to the store, like \<open>faults\<close>, and the theorems hold for
  every such function. \<open>outcome\<close> is the result of a transaction function once its
  statement has been run by the store.
\<close>

datatype tx_call =
    CreateNode stix_obj
  | CreateRelationship jval jval string
  | CreateStixRelationship jval jval string jval stix_obj

record store =
  graph_of :: graph
  faults :: "bool list"
  issued :: "tx_call list"
  beyond :: "tx_call \<Rightarrow> graph \<Rightarrow> error + graph"

fun run_tx :: "tx_call \<Rightarrow> graph \<Rightarrow> error + graph" where
  "run_tx (CreateNode obj) g = create_node obj g"
| "run_tx (CreateRelationship s t ty) g = create_relationship s t ty g"
| "run_tx (CreateStixRelationship s t ty rid props) g = create_stix_relationship s t ty rid props g"

definition refuses_next :: "store \<Rightarrow> bool" where
  "refuses_next s = (case faults s of [] \<Rightarrow> False | b # bs \<Rightarrow> b)"

definition outcome :: "store \<Rightarrow> tx_call \<Rightarrow> error + graph" where
  "outcome s c =
     (case run_tx c (graph_of s) of
        Inl e \<Rightarrow>
          (case e of StatementNotModelled \<Rightarrow> beyond s c (graph_of s) | _ \<Rightarrow> Inl e)
      | Inr g \<Rightarrow> Inr g)"

definition execute_write :: "tx_call \<Rightarrow> store \<Rightarrow> error option \<times> store" where
  "execute_write c s =
     (let s1 = s\<lparr>faults := tl (faults s), issued := issued s @ [c]\<rparr>
      in if refuses_next s then (Some ServiceUnavailable, s1)
         else (case outcome s c of
                 Inl e \<Rightarrow> (Some e, s1)
               | Inr g \<Rightarrow> (None, s1\<lparr>graph_of := g\<rparr>)))"

section \<open>\<^verbatim>\<open>Neo4jHandler.load_stix_object\<close>\<close>

text \<open>
  The loop of source lines 62 to 66: each reference gets a transaction of its own inside
  its own \<^verbatim>\<open>try\<close>; an exception (also the KeyError of \<^verbatim>\<open>stix_obj["id"]\<close>, raised before the
  call is made) is logged and the loop goes on.
\<close>

fun report_refs :: "stix_obj \<Rightarrow> jval list \<Rightarrow> store \<Rightarrow> store" where
  "report_refs stix_obj [] s = s"
| "report_refs stix_obj (ref_id # rest) s =
     report_refs stix_obj rest
       (case stix_obj ''id'' of
          None \<Rightarrow> s
        | Some x \<Rightarrow> snd (execute_write (CreateRelationship x ref_id ''REFERENCES'') s))"

text \<open>
  The body of the outer \<^verbatim>\<open>try\<close> (source lines 50 to 86). The result is the exception that
  leaves the body, if any, and the store as the body left it.
\<close>

definition load_body :: "stix_obj \<Rightarrow> store \<Rightarrow> error option \<times> store" where
  "load_body stix_obj s =
     (let obj_type = dict_get stix_obj ''type'' (JStr '''')
      in case (if obj_type \<noteq> JStr ''relationship''
               then execute_write (CreateNode stix_obj) s else (None, s)) of
           (Some e, s1) \<Rightarrow> (Some e, s1)
         | (None, s1) \<Rightarrow>
             if obj_type = JStr ''report'' \<and> stix_obj ''object_refs'' \<noteq> None then
               (case py_iter (dict_get stix_obj ''object_refs'' JNull) of
                  Inl e \<Rightarrow> (Some e, s1)
                | Inr refs \<Rightarrow> (None, report_refs stix_obj refs s1))
             else if obj_type = JStr ''relationship'' then
               (let source_ref = dict_get stix_obj ''source_ref'' JNull;
                    target_ref = dict_get stix_obj ''target_ref'' JNull
                in case as_str (dict_get stix_obj ''relationship_type'' (JStr ''RELATED_TO'')) of
                     Inl e \<Rightarrow> (Some e, s1)
                   | Inr rt \<Rightarrow>
                       (let relationship_type = upper rt
                        in if truthy source_ref \<and> truthy target_ref
                           then (None, snd (execute_write
                                   (CreateStixRelationship source_ref target_ref relationship_type
                                      (dict_get stix_obj ''id'' JNull) (scalar_props stix_obj)) s1))
                           else (None, s1)))
             else (None, s1))"

text \<open>
  \<^verbatim>\<open>load_stix_object\<close> (source lines 48 to 89): \<^verbatim>\<open>except Exception\<close> catches whatever leaves the
  body and logs it. The first component is the exception that reaches the caller.
\<close>

definition load_stix_object :: "stix_obj \<Rightarrow> store \<Rightarrow> error option \<times> store" where
  "load_stix_object stix_obj s =
     (case load_body stix_obj s of
        (Some e, s1) \<Rightarrow> (None, s1)
      | (None, s1) \<Rightarrow> (None, s1))"

text \<open>
  The record loop of \<^verbatim>\<open>main\<close> (source lines 178 to 188): every record is loaded, and an
  exception from one record would be logged and the loop continued.
\<close>

fun process_objects :: "stix_obj list \<Rightarrow> store \<Rightarrow> store" where
  "process_objects [] s = s"
| "process_objects (obj # objs) s = process_objects objs (snd (load_stix_object obj s))"

section \<open>\<^verbatim>\<open>fetch_stix_objects\<close>\<close>

text \<open>
  The fetcher (source lines 130 to 155) sends GET requests. The first goes to
  \<^verbatim>\<open>TAXII_BASE_URL\<close>, every later one to \<^verbatim>\<open>f"{TAXII_BASE_URL}?next={next_token}"\<close>: a
  request is \<open>Base\<close> or \<open>Next next_token\<close>. The feed answers a request with a decoded JSON
  object, or the request raises. \<open>sent\<close> records the requests made, in order.

  The \<^verbatim>\<open>while current_url\<close> loop need not end (a feed can always announce another page), so
  the loop is a partial function: \<open>None\<close> is a run that never returns.
\<close>

datatype request = Base | Next jval

partial_function (option) fetch_loop ::
  "(request \<Rightarrow> error + stix_obj) \<Rightarrow> request option \<Rightarrow> jval list \<Rightarrow> request list \<Rightarrow>
   ((error + jval list) \<times> request list) option" where
  "fetch_loop feed current_url all_objects sent =
     (case current_url of
        None \<Rightarrow> Some (Inr all_objects, sent)
      | Some url \<Rightarrow>
          (case feed url of
             Inl e \<Rightarrow> Some (Inl e, sent @ [url])
           | Inr response \<Rightarrow>
               (case (case response ''objects'' of None \<Rightarrow> Inr [] | Some v \<Rightarrow> py_iter v) of
                  Inl e \<Rightarrow> Some (Inl e, sent @ [url])
                | Inr objs \<Rightarrow>
                    fetch_loop feed
                      (if truthy (dict_get response ''more'' (JBool False)) \<and>
                          truthy (dict_get response ''next'' JNull)
                       then Some (Next (dict_get response ''next'' JNull)) else None)
                      (all_objects @ objs) (sent @ [url]))))"

definition fetch_stix_objects ::
  "(request \<Rightarrow> error + stix_obj) \<Rightarrow> ((error + jval list) \<times> request list) option" where
  "fetch_stix_objects feed = fetch_loop feed (Some Base) [] []"

section \<open>Notions used in the statements and proofs\<close>

subsection \<open>Pages of a feed\<close>

text \<open>
  A page that carries a record list, a \<^verbatim>\<open>more\<close> flag and an optional \<^verbatim>\<open>next\<close> token. The
  fetcher goes on after a page when the flag is set and the token is a non-empty string.
  \<open>serves feed url ps\<close>: asked \<open>url\<close>, the feed answers with the first page of \<open>ps\<close>, that
  page leads to the request that is answered with the second page, and so on, and the
  last page of \<open>ps\<close> is the first one that does not continue.
\<close>

definition page :: "jval list \<Rightarrow> bool \<Rightarrow> string option \<Rightarrow> stix_obj" where
  "page objs m nx =
     (case nx of
        None \<Rightarrow> [''objects'' \<mapsto> JList objs, ''more'' \<mapsto> JBool m]
      | Some t \<Rightarrow> [''objects'' \<mapsto> JList objs, ''more'' \<mapsto> JBool m, ''next'' \<mapsto> JStr t])"

fun continues :: "jval list \<times> bool \<times> string option \<Rightarrow> bool" where
  "continues (objs, m, None) = False"
| "continues (objs, m, Some t) = (m \<and> t \<noteq> [])"

fun next_request :: "jval list \<times> bool \<times> string option \<Rightarrow> request" where
  "next_request (objs, m, None) = Base"
| "next_request (objs, m, Some t) = Next (JStr t)"

fun serves ::
  "(request \<Rightarrow> error + stix_obj) \<Rightarrow> request \<Rightarrow> (jval list \<times> bool \<times> string option) list \<Rightarrow> bool" where
  "serves feed url [] = False"
| "serves feed url [p] = (feed url = Inr (page (fst p) (fst (snd p)) (snd (snd p))) \<and> \<not> continues p)"
| "serves feed url (p # q # ps) =
     (feed url = Inr (page (fst p) (fst (snd p)) (snd (snd p))) \<and> continues p \<and>
      serves feed (next_request p) (q # ps))"

fun requests_for :: "request \<Rightarrow> (jval list \<times> bool \<times> string option) list \<Rightarrow> request list" where
  "requests_for url [] = []"
| "requests_for url (p # ps) = url # requests_for (next_request p) ps"

text \<open>The three-page feed of the specification, with four records on its pages.\<close>

definition three_pages :: "(jval list \<times> bool \<times> string option) list" where
  "three_pages =
     [([JStr ''o1''], True, Some ''a''),
      ([JStr ''o2'', JStr ''o3''], True, Some ''b''),
      ([JStr ''o4''], False, None)]"

definition three_page_feed :: "request \<Rightarrow> error + stix_obj" where
  "three_page_feed url =
     (if url = Base then Inr (page [JStr ''o1''] True (Some ''a''))
      else if url = Next (JStr ''a'') then Inr (page [JStr ''o2'', JStr ''o3''] True (Some ''b''))
      else if url = Next (JStr ''b'') then Inr (page [JStr ''o4''] False None)
      else Inl TransportError)"

subsection \<open>Stores that differ in their log only\<close>

definition same_db :: "store \<Rightarrow> store \<Rightarrow> bool" where
  "same_db s t = (graph_of s = graph_of t \<and> faults s = faults t \<and> beyond s = beyond t)"

subsection \<open>What a record does to the graph when the store refuses nothing\<close>

text \<open>
  \<open>apply_tx\<close> is one transaction on the graph alone: the graph it commits, or the old graph
  when it raises. \<open>load_pure\<close> is \<open>load_stix_object\<close> on the graph alone; lemma
  \<open>load_stix_object_pure\<close> shows that it is what \<open>load_stix_object\<close> does to the graph of a
  store whose fault list is empty, for a record whose spliced names the model parses. \<open>reload n\<close> loads the same record \<open>n\<close> times.
\<close>

definition apply_tx :: "tx_call \<Rightarrow> graph \<Rightarrow> graph" where
  "apply_tx c g = (case run_tx c g of Inl e \<Rightarrow> g | Inr g' \<Rightarrow> g')"

definition refs_pure :: "jval \<Rightarrow> jval list \<Rightarrow> graph \<Rightarrow> graph" where
  "refs_pure x refs g = foldl (\<lambda>g r. apply_tx (CreateRelationship x r ''REFERENCES'') g) g refs"

definition entity_pure :: "stix_obj \<Rightarrow> graph \<Rightarrow> graph" where
  "entity_pure obj g =
     (case create_node obj g of
        Inl e \<Rightarrow> g
      | Inr g1 \<Rightarrow>
          if dict_get obj ''type'' (JStr '''') = JStr ''report'' \<and> obj ''object_refs'' \<noteq> None
          then (case py_iter (dict_get obj ''object_refs'' JNull) of
                  Inl e \<Rightarrow> g1
                | Inr refs \<Rightarrow>
                    (case obj ''id'' of None \<Rightarrow> g1 | Some x \<Rightarrow> refs_pure x refs g1))
          else g1)"

definition relationship_pure :: "stix_obj \<Rightarrow> graph \<Rightarrow> graph" where
  "relationship_pure obj g =
     (case as_str (dict_get obj ''relationship_type'' (JStr ''RELATED_TO'')) of
        Inl e \<Rightarrow> g
      | Inr rt \<Rightarrow>
          if truthy (dict_get obj ''source_ref'' JNull) \<and> truthy (dict_get obj ''target_ref'' JNull)
          then apply_tx (CreateStixRelationship (dict_get obj ''source_ref'' JNull)
                  (dict_get obj ''target_ref'' JNull) (upper rt)
                  (dict_get obj ''id'' JNull) (scalar_props obj)) g
          else g)"

definition load_pure :: "stix_obj \<Rightarrow> graph \<Rightarrow> graph" where
  "load_pure obj g =
     (if dict_get obj ''type'' (JStr '''') \<noteq> JStr ''relationship''
      then entity_pure obj g else relationship_pure obj g)"

definition reload :: "nat \<Rightarrow> stix_obj \<Rightarrow> store \<Rightarrow> store" where
  "reload n obj s = ((\<lambda>s. snd (load_stix_object obj s)) ^^ n) s"

subsection \<open>Matched rows and what a MERGE leaves behind\<close>

text \<open>
  \<open>id_agrees props x\<close>: the properties do not set an id other than \<open>x\<close>. \<open>ref_rows\<close> are the
  pairs of matched endpoints. An edge MERGE leaves every row \<open>covered\<close> (an edge of the
  type joins the pair); a keyed MERGE with SET leaves every row \<open>settled\<close> (an edge of the
  type and id joins the pair, and every such edge already carries the properties).
\<close>

definition id_agrees :: "stix_obj \<Rightarrow> jval \<Rightarrow> bool" where
  "id_agrees props x = (props ''id'' = None \<or> props ''id'' = Some x)"

definition ref_rows :: "graph \<Rightarrow> jval \<Rightarrow> jval \<Rightarrow> (nat \<times> nat) list" where
  "ref_rows g x r = List.product (match_ids (vertices g) x) (match_ids (vertices g) r)"

definition covered :: "string \<Rightarrow> jval \<Rightarrow> jval \<Rightarrow> graph \<Rightarrow> bool" where
  "covered ty x r g =
     list_all (\<lambda>ij. list_ex (edge_hit (fst ij) (snd ij) ty) (edges g)) (ref_rows g x r)"

definition settled :: "string \<Rightarrow> jval \<Rightarrow> stix_obj \<Rightarrow> graph \<Rightarrow> nat \<times> nat \<Rightarrow> bool" where
  "settled ty rid props g ij =
     (list_ex (keyed_edge_hit (fst ij) (snd ij) ty rid) (edges g) \<and>
      list_all (\<lambda>e. \<not> keyed_edge_hit (fst ij) (snd ij) ty rid e \<or> e_props e ++ props = e_props e)
        (edges g))"

subsection \<open>Example data\<close>

text \<open>
  The records of the scenario in the specification, and the store before the first cycle.
  The example store runs no statement beyond those that the model parses: a call that
  sends one ends with \<open>StatementNotModelled\<close>.
\<close>

definition report_r1 :: stix_obj where
  "report_r1 = [''id'' \<mapsto> JStr ''r1'', ''type'' \<mapsto> JStr ''report'',
                ''object_refs'' \<mapsto> JList [JStr ''i1'', JStr ''i2'']]"

definition indicator_i1 :: stix_obj where
  "indicator_i1 = [''id'' \<mapsto> JStr ''i1'', ''type'' \<mapsto> JStr ''indicator'',
                   ''pattern'' \<mapsto> JStr ''x'']"

definition empty_store :: store where
  "empty_store = \<lparr>graph_of = \<lparr>vertices = [], edges = []\<rparr>, faults = [], issued = [],
                   beyond = (\<lambda>c g. Inl StatementNotModelled)\<rparr>"

definition scenario_store :: store where
  "scenario_store = process_objects [report_r1, indicator_i1] empty_store"

text \<open>A record without a type, a record without an id, and a record whose type has a space.\<close>

definition typeless_t1 :: stix_obj where
  "typeless_t1 = [''id'' \<mapsto> JStr ''t1'', ''name'' \<mapsto> JStr ''n'']"

definition idless_u1 :: stix_obj where
  "idless_u1 = [''type'' \<mapsto> JStr ''indicator'', ''pattern'' \<mapsto> JStr ''x'']"

definition spaced_type :: stix_obj where
  "spaced_type = [''id'' \<mapsto> JStr ''x1'', ''type'' \<mapsto> JStr ''my type'']"

text \<open>
  A note that lists a reference, a store that accepts the next transaction and refuses
  the one after it, and two records with one id and different types.
\<close>

definition note_n1 :: stix_obj where
  "note_n1 = [''id'' \<mapsto> JStr ''n1'', ''type'' \<mapsto> JStr ''note'',
              ''object_refs'' \<mapsto> JList [JStr ''i1'']]"

definition faulty_store :: store where
  "faulty_store = (process_objects [indicator_i1] empty_store)\<lparr>faults := [False, True]\<rparr>"

definition malware_x1 :: stix_obj where
  "malware_x1 = [''id'' \<mapsto> JStr ''x1'', ''type'' \<mapsto> JStr ''malware'', ''name'' \<mapsto> JStr ''m'']"

definition tool_x1 :: stix_obj where
  "tool_x1 = [''id'' \<mapsto> JStr ''x1'', ''type'' \<mapsto> JStr ''tool'', ''name'' \<mapsto> JStr ''t'']"






subsection \<open>One vertex per label and id\<close>

text \<open>
  Two vertices share a key when they have a label in common and the same (non-null) id.
  \<open>one_per_key\<close>: no two vertices of the list share a key. Lemma \<open>one_per_key_unique\<close>
  restates it with \<open>node_hit\<close>, the match of the node MERGE.
\<close>

definition shares_key :: "vertex \<Rightarrow> vertex \<Rightarrow> bool" where
  "shares_key u v =
     (list_ex (\<lambda>l. l \<in> set (v_labels v)) (v_labels u) \<and>
      (case v_props u ''id'' of None \<Rightarrow> False
       | Some x \<Rightarrow> x \<noteq> JNull \<and> v_props v ''id'' = Some x))"

fun one_per_key :: "vertex list \<Rightarrow> bool" where
  "one_per_key [] = True"
| "one_per_key (v # vs) = (\<not> list_ex (shares_key v) vs \<and> one_per_key vs)"

subsection \<open>Relationship records and their edges\<close>





subsection \<open>Names that the model parses\<close>

text \<open>
  A spliced name is parsed when it is a plain identifier or is rejected as a syntax
  error. A call is parsed when the statement it sends, if it sends one, has a parsed
  name; a record's names are parsed when the calls that loading it makes are.
\<close>

definition parsed_name :: "string \<Rightarrow> bool" where
  "parsed_name t = (cypher_name_ok t \<or> rejected_name t)"

fun call_parsed :: "tx_call \<Rightarrow> bool" where
  "call_parsed (CreateNode obj) =
     (case as_str (dict_get obj ''type'' (JStr ''STIXObject'')) of
        Inl e \<Rightarrow> True
      | Inr t \<Rightarrow> parsed_name (node_label t))"
| "call_parsed (CreateRelationship s t ty) = parsed_name (edge_type ty)"
| "call_parsed (CreateStixRelationship s t ty rid props) = parsed_name (edge_type ty)"

definition names_parsed :: "stix_obj \<Rightarrow> bool" where
  "names_parsed obj =
     (if dict_get obj ''type'' (JStr '''') \<noteq> JStr ''relationship''
      then call_parsed (CreateNode obj)
      else (case as_str (dict_get obj ''relationship_type'' (JStr ''RELATED_TO'')) of
              Inl e \<Rightarrow> True
            | Inr rt \<Rightarrow> parsed_name (edge_type (upper rt))))"

subsection \<open>A type that adds a clause to the node statement\<close>

text \<open>
  \<open>node_statement\<close> is the statement text of \<^verbatim>\<open>_create_node\<close> (source lines 95 to 98) for a
  label, each run of white space written as one space. The label is spliced in as it is,
  so for the type \<^verbatim>\<open>A) CREATE (m:B\<close> the text is
  \<^verbatim>\<open>MERGE (n:A) CREATE (m:B { id: $id }) SET n += $props\<close>, a statement of three clauses.

  \<open>split_added_create\<close> recognises the labels of that form: a plain identifier, the text
  \<^verbatim>\<open>) CREATE (m:\<close>, a plain identifier. \<open>added_create\<close> is what a store does with the node
  statement of such a label. \<^verbatim>\<open>MERGE (n:A)\<close> binds \<open>n\<close> to every vertex labelled \<open>A\<close>, creating
  one without properties when there is none; \<^verbatim>\<open>CREATE (m:B { id: $id })\<close> creates, for every
  such \<open>n\<close>, a new vertex labelled \<open>B\<close> with the id (a null id leaves the property out, a value
  that cannot be stored is rejected); \<^verbatim>\<open>SET n += $props\<close> merges the properties into every
  such \<open>n\<close>. Of the other statements that the model does not parse, \<open>added_create\<close> runs none.
\<close>

definition node_statement :: "string \<Rightarrow> string" where
  "node_statement label = ''MERGE (n:'' @ label @ '' { id: $id }) SET n += $props''"

definition split_added_create :: "string \<Rightarrow> (string \<times> string) option" where
  "split_added_create t =
     (let l1 = takeWhile (\<lambda>c. c \<noteq> CHR '')'') t;
          rest = dropWhile (\<lambda>c. c \<noteq> CHR '')'') t
      in if cypher_name_ok l1 \<and> take 12 rest = '') CREATE (m:'' \<and> cypher_name_ok (drop 12 rest)
         then Some (l1, drop 12 rest) else None)"

definition run_added_create :: "string \<Rightarrow> string \<Rightarrow> jval \<Rightarrow> stix_obj \<Rightarrow> graph \<Rightarrow> error + graph" where
  "run_added_create l1 l2 x props g =
     (if x \<noteq> JNull \<and> \<not> storable x then Inl CypherValueError
      else
        (let vs = (if list_ex (\<lambda>v. l1 \<in> set (v_labels v)) (vertices g) then vertices g
                   else vertices g @ [\<lparr>v_labels = [l1], v_props = Map.empty\<rparr>]);
             made = \<lparr>v_labels = [l2],
                     v_props = (if x = JNull then Map.empty else [''id'' \<mapsto> x])\<rparr>
         in Inr (g\<lparr>vertices :=
                   map (\<lambda>v. if l1 \<in> set (v_labels v) then v\<lparr>v_props := v_props v ++ props\<rparr> else v) vs @
                   replicate (length (filter (\<lambda>v. l1 \<in> set (v_labels v)) vs)) made\<rparr>)))"

fun added_create :: "tx_call \<Rightarrow> graph \<Rightarrow> error + graph" where
  "added_create (CreateNode obj) g =
     (case as_str (dict_get obj ''type'' (JStr ''STIXObject'')) of
        Inl e \<Rightarrow> Inl e
      | Inr t \<Rightarrow>
          (case obj ''id'' of
             None \<Rightarrow> Inl KeyError
           | Some x \<Rightarrow>
               (case split_added_create (node_label t) of
                  None \<Rightarrow> Inl StatementNotModelled
                | Some ls \<Rightarrow> run_added_create (fst ls) (snd ls) x (scalar_props obj) g)))"
| "added_create (CreateRelationship s t ty) g = Inl StatementNotModelled"
| "added_create (CreateStixRelationship s t ty rid props) g = Inl StatementNotModelled"

text \<open>A record of such a type, and the empty store with \<open>added_create\<close> for the statements beyond the model.\<close>

definition clause_c1 :: stix_obj where
  "clause_c1 = [''id'' \<mapsto> JStr ''c1'', ''type'' \<mapsto> JStr ''A) CREATE (m:B'']"

definition clause_store :: store where
  "clause_store = empty_store\<lparr>beyond := added_create\<rparr>"

section \<open>Auxiliary lemmas\<close>

subsection \<open>The two branches of the body\<close>

lemma load_body_entity:
  "dict_get obj ''type'' (JStr '''') \<noteq> JStr ''relationship'' \<Longrightarrow>
   load_body obj s =
     (case execute_write (CreateNode obj) s of
        (Some e, s1) \<Rightarrow> (Some e, s1)
      | (None, s1) \<Rightarrow>
          if dict_get obj ''type'' (JStr '''') = JStr ''report'' \<and> obj ''object_refs'' \<noteq> None
          then (case py_iter (dict_get obj ''object_refs'' JNull) of
                  Inl e \<Rightarrow> (Some e, s1)
                | Inr refs \<Rightarrow> (None, report_refs obj refs s1))
          else (None, s1))"
  by (auto simp: load_body_def Let_def split: prod.splits option.splits)

lemma load_body_relationship:
  "dict_get obj ''type'' (JStr '''') = JStr ''relationship'' \<Longrightarrow>
   load_body obj s =
     (case as_str (dict_get obj ''relationship_type'' (JStr ''RELATED_TO'')) of
        Inl e \<Rightarrow> (Some e, s)
      | Inr rt \<Rightarrow>
          if truthy (dict_get obj ''source_ref'' JNull) \<and> truthy (dict_get obj ''target_ref'' JNull)
          then (None, snd (execute_write
                  (CreateStixRelationship (dict_get obj ''source_ref'' JNull)
                     (dict_get obj ''target_ref'' JNull) (upper rt)
                     (dict_get obj ''id'' JNull) (scalar_props obj)) s))
          else (None, s))"
  by (simp add: load_body_def Let_def split: sum.splits)

subsection \<open>The log does not influence the graph\<close>

lemma execute_write_same:
  assumes "same_db s t"
  shows "fst (execute_write c s) = fst (execute_write c t) \<and>
         same_db (snd (execute_write c s)) (snd (execute_write c t))"
proof -
  have "outcome s c = outcome t c"
    using assms by (auto simp: same_db_def outcome_def split: sum.splits error.splits)
  then show ?thesis
    using assms
    by (auto simp: same_db_def execute_write_def refuses_next_def Let_def split: sum.splits)
qed

lemma report_refs_same:
  "same_db s t \<Longrightarrow> same_db (report_refs obj refs s) (report_refs obj refs t)"
proof (induction refs arbitrary: s t)
  case Nil
  then show ?case by simp
next
  case (Cons r refs)
  show ?case
  proof (cases "obj ''id''")
    case None
    with Cons show ?thesis by simp
  next
    case (Some x)
    from Cons.prems have "same_db (snd (execute_write (CreateRelationship x r ''REFERENCES'') s))
                                  (snd (execute_write (CreateRelationship x r ''REFERENCES'') t))"
      using execute_write_same by blast
    then show ?thesis using Some Cons.IH by simp
  qed
qed

lemma load_body_same:
  assumes "same_db s t"
  shows "fst (load_body obj s) = fst (load_body obj t) \<and>
         same_db (snd (load_body obj s)) (snd (load_body obj t))"
proof (cases "dict_get obj ''type'' (JStr '''') = JStr ''relationship''")
  case True
  show ?thesis
    using assms execute_write_same [OF assms]
    by (auto simp: load_body_relationship [OF True] split: sum.splits)
next
  case False
  obtain r1 s1 where a: "execute_write (CreateNode obj) s = (r1, s1)" by force
  obtain r2 t1 where b: "execute_write (CreateNode obj) t = (r2, t1)" by force
  from execute_write_same [OF assms, of "CreateNode obj"] a b
  have c: "r1 = r2" "same_db s1 t1" by simp_all
  show ?thesis
    using c report_refs_same [OF c(2)]
    by (auto simp: load_body_entity [OF False] a b split: option.splits sum.splits)
qed

lemma load_stix_object_same:
  assumes "same_db s t"
  shows "same_db (snd (load_stix_object obj s)) (snd (load_stix_object obj t))"
  using load_body_same [OF assms, of obj]
  by (cases "load_body obj s"; cases "load_body obj t")
     (auto simp: load_stix_object_def split: option.splits)

lemma process_objects_same:
  "same_db s t \<Longrightarrow> same_db (process_objects objs s) (process_objects objs t)"
  by (induction objs arbitrary: s t) (auto intro: load_stix_object_same)

subsection \<open>Lists and maps\<close>

lemma map_add_twice: "m ++ p ++ p = m ++ p"
  by (rule ext) (simp add: map_add_def split: option.splits)

lemma list_ex_map: "list_ex P (map f xs) = list_ex (\<lambda>x. P (f x)) xs"
  by (induction xs) simp_all

lemma list_all_weaken: "list_all P xs \<Longrightarrow> (\<And>x. P x \<Longrightarrow> Q x) \<Longrightarrow> list_all Q xs"
  by (simp add: list_all_iff)

lemma list_ex_mapI: "e \<in> set xs \<Longrightarrow> P (f e) \<Longrightarrow> list_ex P (map f xs)"
  by (auto simp: list_ex_iff)

lemma list_all_mapI: "(\<And>e. e \<in> set xs \<Longrightarrow> P (f e)) \<Longrightarrow> list_all P (map f xs)"
  by (simp add: list_all_iff)

lemma list_exE: "list_ex P xs \<Longrightarrow> (\<And>e. e \<in> set xs \<Longrightarrow> P e \<Longrightarrow> R) \<Longrightarrow> R"
  by (auto simp: list_ex_iff)

lemma list_allD: "list_all P xs \<Longrightarrow> e \<in> set xs \<Longrightarrow> P e"
  by (simp add: list_all_iff)

subsection \<open>The node MERGE, repeated\<close>

lemma has_id_merge:
  "id_agrees props x \<Longrightarrow> has_id ps x \<Longrightarrow> has_id (ps ++ props) x"
  by (auto simp: id_agrees_def has_id_def map_add_def split: option.splits)

lemma node_hit_merge:
  "id_agrees props x \<Longrightarrow> node_hit label x v \<Longrightarrow>
   node_hit label x (v\<lparr>v_props := v_props v ++ props\<rparr>)"
  by (simp add: node_hit_def has_id_merge)

lemma node_hit_new:
  "id_agrees props x \<Longrightarrow> x \<noteq> JNull \<Longrightarrow>
   node_hit label x \<lparr>v_labels = [label], v_props = [''id'' \<mapsto> x] ++ props\<rparr>"
  by (auto simp: id_agrees_def node_hit_def has_id_def map_add_def split: option.splits)

lemma storable_not_null: "storable x \<Longrightarrow> x \<noteq> JNull"
  by (cases x) auto

lemma merge_node_ignores_edges:
  "merge_node label x props g = Inr g' \<Longrightarrow>
   merge_node label x props (g\<lparr>edges := es\<rparr>) = Inr (g'\<lparr>edges := es\<rparr>)"
  by (auto simp: merge_node_def split: if_splits)

lemma merge_node_again:
  assumes p: "id_agrees props x"
      and m: "merge_node label x props g = Inr g'"
  shows "merge_node label x props g' = Inr g'"
proof -
  from m have ok: "cypher_name_ok label" "storable x"
    by (auto simp: merge_node_def split: if_splits)
  let ?f = "\<lambda>v. if node_hit label x v then v\<lparr>v_props := v_props v ++ props\<rparr> else v"
  have ff: "?f (?f v) = ?f v" for v
    using node_hit_merge [OF p, of label v] by (simp add: map_add_twice)
  have hf: "node_hit label x (?f v) = node_hit label x v" for v
    using node_hit_merge [OF p, of label v] by simp
  show ?thesis
  proof (cases "list_ex (node_hit label x) (vertices g)")
    case True
    with m ok have g': "g' = g\<lparr>vertices := map ?f (vertices g)\<rparr>"
      by (simp add: merge_node_def)
    from True have "list_ex (node_hit label x) (map ?f (vertices g))"
      by (simp only: list_ex_map hf)
    then show ?thesis
      using ok by (simp add: merge_node_def g' ff o_def)
  next
    case False
    let ?n = "\<lparr>v_labels = [label], v_props = [''id'' \<mapsto> x] ++ props\<rparr>"
    from False m ok have g': "g' = g\<lparr>vertices := vertices g @ [?n]\<rparr>"
      by (simp add: merge_node_def)
    have hn: "node_hit label x ?n"
      using node_hit_new [OF p storable_not_null [OF ok(2)]] by simp
    have nf: "?f ?n = ?n"
      by (simp add: map_add_twice)
    have old: "map ?f (vertices g) = vertices g"
      using False by (auto simp: list_ex_iff intro: map_idI)
    show ?thesis
      using ok hn old nf by (simp add: merge_node_def g' list_ex_iff)
  qed
qed

lemma scalar_props_id: "obj ''id'' = Some x \<Longrightarrow> id_agrees (scalar_props obj) x"
  by (simp add: id_agrees_def scalar_props_def)

lemma scalar_props_get_id: "id_agrees (scalar_props obj) (dict_get obj ''id'' JNull)"
  by (simp add: id_agrees_def scalar_props_def dict_get_def split: option.splits)

lemma create_node_again:
  assumes "create_node obj g = Inr g'"
  shows "create_node obj (g'\<lparr>edges := es\<rparr>) = Inr (g'\<lparr>edges := es\<rparr>)"
proof -
  from assms obtain t x where t: "as_str (dict_get obj ''type'' (JStr ''STIXObject'')) = Inr t"
    and x: "obj ''id'' = Some x"
    and m: "merge_node (node_label t) x (scalar_props obj) g = Inr g'"
    by (auto simp: create_node_def Let_def split: sum.splits option.splits)
  have ag: "id_agrees (scalar_props obj) x"
    using x by (rule scalar_props_id)
  from merge_node_again [OF ag m]
  have "merge_node (node_label t) x (scalar_props obj) g' = Inr g'" .
  from merge_node_ignores_edges [OF this, of es] show ?thesis
    by (simp add: create_node_def Let_def t x)
qed

subsection \<open>The edge MERGE, repeated\<close>

lemma merge_edge_row_vertices: "vertices (merge_edge_row ty g ij) = vertices g"
  by (simp add: merge_edge_row_def)

lemma foldl_merge_edge_row_vertices: "vertices (foldl (merge_edge_row ty) g rows) = vertices g"
  by (induction rows arbitrary: g) (simp_all add: merge_edge_row_vertices)

lemma merge_edge_row_keeps:
  "list_ex P (edges g) \<Longrightarrow> list_ex P (edges (merge_edge_row ty g ij))"
  by (auto simp: merge_edge_row_def list_ex_iff)

lemma foldl_merge_edge_row_keeps:
  "list_ex P (edges g) \<Longrightarrow> list_ex P (edges (foldl (merge_edge_row ty) g rows))"
  by (induction rows arbitrary: g) (simp_all add: merge_edge_row_keeps)

lemma merge_edge_row_hit:
  "list_ex (edge_hit (fst ij) (snd ij) ty) (edges (merge_edge_row ty g ij))"
  by (simp add: merge_edge_row_def edge_hit_def)

lemma foldl_merge_edge_row_hit:
  "ij \<in> set rows \<Longrightarrow>
   list_ex (edge_hit (fst ij) (snd ij) ty) (edges (foldl (merge_edge_row ty) g rows))"
proof (induction rows arbitrary: g)
  case Nil
  then show ?case by simp
next
  case (Cons r rows)
  show ?case
  proof (cases "ij = r")
    case True
    then show ?thesis
      using foldl_merge_edge_row_keeps [OF merge_edge_row_hit [of r ty g], of ty rows] by simp
  next
    case False
    with Cons show ?thesis by simp
  qed
qed

lemma foldl_merge_edge_row_fixed:
  "(\<And>ij. ij \<in> set rows \<Longrightarrow> list_ex (edge_hit (fst ij) (snd ij) ty) (edges g)) \<Longrightarrow>
   foldl (merge_edge_row ty) g rows = g"
  by (induction rows) (simp_all add: merge_edge_row_def)

lemma foldl_merge_edge_row_all:
  "list_all (\<lambda>ij. list_ex (edge_hit (fst ij) (snd ij) ty)
                      (edges (foldl (merge_edge_row ty) g rows))) rows"
  by (simp add: list_all_iff foldl_merge_edge_row_hit)

lemma foldl_merge_edge_row_id:
  "list_all (\<lambda>ij. list_ex (edge_hit (fst ij) (snd ij) ty) (edges g)) rows \<Longrightarrow>
   foldl (merge_edge_row ty) g rows = g"
  by (rule foldl_merge_edge_row_fixed) (simp add: list_all_iff)

lemma merge_edge_eq:
  "cypher_name_ok ty \<Longrightarrow>
   merge_edge x r ty g = Inr (foldl (merge_edge_row ty) g (ref_rows g x r))"
  by (simp add: merge_edge_def ref_rows_def)

lemma merge_edge_ok: "merge_edge x r ty g = Inr g' \<Longrightarrow> cypher_name_ok ty"
  by (simp add: merge_edge_def split: if_splits)

lemma ref_rows_cong: "vertices g' = vertices g \<Longrightarrow> ref_rows g' x r = ref_rows g x r"
  by (simp add: ref_rows_def)

lemma merge_edge_vertices:
  "merge_edge x r ty g = Inr g' \<Longrightarrow> vertices g' = vertices g"
  by (auto simp: merge_edge_def foldl_merge_edge_row_vertices split: if_splits)

lemma merge_edge_covered:
  assumes "merge_edge x r ty g = Inr g'"
  shows "covered ty x r g'"
proof -
  from assms merge_edge_eq [OF merge_edge_ok [OF assms], of x r g]
  have g': "g' = foldl (merge_edge_row ty) g (ref_rows g x r)" by simp
  have "ref_rows g' x r = ref_rows g x r"
    by (rule ref_rows_cong) (rule merge_edge_vertices [OF assms])
  then show ?thesis
    unfolding covered_def using foldl_merge_edge_row_all [of ty g "ref_rows g x r"]
    by (simp add: g')
qed

lemma merge_edge_fixed:
  "cypher_name_ok ty \<Longrightarrow> covered ty x r g \<Longrightarrow> merge_edge x r ty g = Inr g"
  by (simp add: merge_edge_eq covered_def foldl_merge_edge_row_id)

lemma merge_edge_covered_mono:
  assumes "merge_edge x r ty g = Inr g'" and c: "covered ty' x' r' g"
  shows "covered ty' x' r' g'"
proof -
  from assms merge_edge_eq [OF merge_edge_ok [OF assms(1)], of x r g]
  have g': "g' = foldl (merge_edge_row ty) g (ref_rows g x r)" by simp
  have rr: "ref_rows g' x' r' = ref_rows g x' r'"
    by (rule ref_rows_cong) (rule merge_edge_vertices [OF assms(1)])
  show ?thesis
    unfolding covered_def rr
    by (rule list_all_weaken [OF c [unfolded covered_def]])
       (simp add: g' foldl_merge_edge_row_keeps)
qed

subsection \<open>The keyed edge MERGE, repeated\<close>

lemma keyed_edge_hit_merge:
  "id_agrees props rid \<Longrightarrow> keyed_edge_hit i j ty rid e \<Longrightarrow>
   keyed_edge_hit i j ty rid (e\<lparr>e_props := e_props e ++ props\<rparr>)"
  by (simp add: keyed_edge_hit_def edge_hit_def has_id_merge)

lemma keyed_edge_hit_new:
  "id_agrees props rid \<Longrightarrow> rid \<noteq> JNull \<Longrightarrow>
   keyed_edge_hit i j ty rid
     \<lparr>e_src = i, e_tgt = j, e_type = ty, e_props = [''id'' \<mapsto> rid] ++ props\<rparr>"
  by (auto simp: id_agrees_def keyed_edge_hit_def edge_hit_def has_id_def map_add_def split: option.splits)

lemma merge_keyed_edge_row_vertices:
  "vertices (merge_keyed_edge_row ty rid props g ij) = vertices g"
  by (simp add: merge_keyed_edge_row_def)

lemma foldl_merge_keyed_edge_row_vertices:
  "vertices (foldl (merge_keyed_edge_row ty rid props) g rows) = vertices g"
  by (induction rows arbitrary: g) (simp_all add: merge_keyed_edge_row_vertices)

lemma merge_keyed_edge_row_settles:
  assumes p: "id_agrees props rid" and n: "rid \<noteq> JNull"
  shows "settled ty rid props (merge_keyed_edge_row ty rid props g ij) ij"
proof (cases "list_ex (keyed_edge_hit (fst ij) (snd ij) ty rid) (edges g)")
  case True
  let ?h = "keyed_edge_hit (fst ij) (snd ij) ty rid"
  let ?f = "\<lambda>e. if ?h e then e\<lparr>e_props := e_props e ++ props\<rparr> else e"
  have hf: "?h e \<Longrightarrow> ?h (?f e)" for e
    by (simp add: keyed_edge_hit_merge [OF p])
  from True obtain e0 where e0: "e0 \<in> set (edges g)" "?h e0"
    by (rule list_exE)
  have a: "list_ex ?h (map ?f (edges g))"
    using e0(1) hf [OF e0(2)] by (rule list_ex_mapI)
  have c: "\<not> ?h (?f e) \<or> e_props (?f e) ++ props = e_props (?f e)" for e
    by (cases "?h e") (simp_all add: map_add_twice)
  have b: "list_all (\<lambda>e. \<not> ?h e \<or> e_props e ++ props = e_props e) (map ?f (edges g))"
    by (rule list_all_mapI) (rule c)
  have eq: "merge_keyed_edge_row ty rid props g ij = g\<lparr>edges := map ?f (edges g)\<rparr>"
    using True by (simp add: merge_keyed_edge_row_def)
  show ?thesis
    unfolding eq settled_def using a b by simp
next
  case False
  let ?h = "keyed_edge_hit (fst ij) (snd ij) ty rid"
  let ?n = "\<lparr>e_src = fst ij, e_tgt = snd ij, e_type = ty, e_props = [''id'' \<mapsto> rid] ++ props\<rparr>"
  have nh: "?h ?n"
    by (rule keyed_edge_hit_new [OF p n])
  have old: "list_all (\<lambda>e. \<not> ?h e \<or> e_props e ++ props = e_props e) (edges g)"
    using False by (simp add: list_all_iff list_ex_iff)
  have new: "e_props ?n ++ props = e_props ?n"
    by (simp add: map_add_twice)
  have eq: "merge_keyed_edge_row ty rid props g ij = g\<lparr>edges := edges g @ [?n]\<rparr>"
    using False by (simp add: merge_keyed_edge_row_def)
  show ?thesis
    unfolding eq settled_def using nh old new by simp
qed

lemma merge_keyed_edge_row_keeps:
  assumes p: "id_agrees props rid"
      and s: "settled ty rid props g ij"
  shows "settled ty rid props (merge_keyed_edge_row ty rid props g kl) ij"
proof (cases "list_ex (keyed_edge_hit (fst kl) (snd kl) ty rid) (edges g)")
  case True
  let ?h = "keyed_edge_hit (fst ij) (snd ij) ty rid"
  let ?k = "keyed_edge_hit (fst kl) (snd kl) ty rid"
  let ?f = "\<lambda>e. if ?k e then e\<lparr>e_props := e_props e ++ props\<rparr> else e"
  have hf: "?h e \<Longrightarrow> ?h (?f e)" for e
    by (simp add: keyed_edge_hit_merge [OF p])
  from s have s1: "list_ex ?h (edges g)"
    and s3: "list_all (\<lambda>e. \<not> ?h e \<or> e_props e ++ props = e_props e) (edges g)"
    by (simp_all add: settled_def)
  from s1 obtain e0 where e0: "e0 \<in> set (edges g)" "?h e0"
    by (rule list_exE)
  have a: "list_ex ?h (map ?f (edges g))"
    using e0(1) hf [OF e0(2)] by (rule list_ex_mapI)
  have c: "\<not> ?h (?f e) \<or> e_props (?f e) ++ props = e_props (?f e)" if "e \<in> set (edges g)" for e
  proof (cases "?k e")
    case True
    then show ?thesis by (simp add: map_add_twice)
  next
    case False
    then show ?thesis using list_allD [OF s3 that] by simp
  qed
  have b: "list_all (\<lambda>e. \<not> ?h e \<or> e_props e ++ props = e_props e) (map ?f (edges g))"
    by (rule list_all_mapI) (rule c)
  have eq: "merge_keyed_edge_row ty rid props g kl = g\<lparr>edges := map ?f (edges g)\<rparr>"
    using True by (simp add: merge_keyed_edge_row_def)
  show ?thesis
    unfolding eq settled_def using a b by simp
next
  case False
  let ?h = "keyed_edge_hit (fst ij) (snd ij) ty rid"
  let ?n = "\<lparr>e_src = fst kl, e_tgt = snd kl, e_type = ty, e_props = [''id'' \<mapsto> rid] ++ props\<rparr>"
  have new: "e_props ?n ++ props = e_props ?n"
    by (simp add: map_add_twice)
  have eq: "merge_keyed_edge_row ty rid props g kl = g\<lparr>edges := edges g @ [?n]\<rparr>"
    using False by (simp add: merge_keyed_edge_row_def)
  show ?thesis
    unfolding eq using s new by (simp add: settled_def)
qed

lemma foldl_merge_keyed_edge_row_keeps:
  "id_agrees props rid \<Longrightarrow> settled ty rid props g ij \<Longrightarrow>
   settled ty rid props (foldl (merge_keyed_edge_row ty rid props) g rows) ij"
  by (induction rows arbitrary: g) (simp_all add: merge_keyed_edge_row_keeps)

lemma foldl_merge_keyed_edge_row_settles:
  assumes p: "id_agrees props rid" and n: "rid \<noteq> JNull"
  shows "ij \<in> set rows \<Longrightarrow>
         settled ty rid props (foldl (merge_keyed_edge_row ty rid props) g rows) ij"
proof (induction rows arbitrary: g)
  case Nil
  then show ?case by simp
next
  case (Cons r rows)
  show ?case
  proof (cases "ij = r")
    case True
    then show ?thesis
      using foldl_merge_keyed_edge_row_keeps [OF p merge_keyed_edge_row_settles [OF p n]]
      by simp
  next
    case False
    with Cons show ?thesis by simp
  qed
qed

lemma merge_keyed_edge_row_fixed:
  assumes "settled ty rid props g ij"
  shows "merge_keyed_edge_row ty rid props g ij = g"
proof -
  let ?h = "keyed_edge_hit (fst ij) (snd ij) ty rid"
  have "map (\<lambda>e. if ?h e then e\<lparr>e_props := e_props e ++ props\<rparr> else e) (edges g) = edges g"
    using assms by (intro map_idI) (auto simp: settled_def list_all_iff)
  then show ?thesis
    using assms by (simp add: merge_keyed_edge_row_def settled_def)
qed

lemma foldl_merge_keyed_edge_row_fixed:
  "(\<And>ij. ij \<in> set rows \<Longrightarrow> settled ty rid props g ij) \<Longrightarrow>
   foldl (merge_keyed_edge_row ty rid props) g rows = g"
  by (induction rows) (simp_all add: merge_keyed_edge_row_fixed)

lemma merge_keyed_edge_vertices:
  "merge_keyed_edge x y ty rid props g = Inr g' \<Longrightarrow> vertices g' = vertices g"
  by (auto simp: merge_keyed_edge_def Let_def foldl_merge_keyed_edge_row_vertices split: if_splits)

lemma merge_keyed_edge_again:
  assumes p: "id_agrees props rid"
      and m: "merge_keyed_edge x y ty rid props g = Inr g'"
  shows "merge_keyed_edge x y ty rid props g' = Inr g'"
proof -
  let ?rows = "ref_rows g x y"
  from m have ok: "cypher_name_ok ty" and st: "?rows = [] \<or> storable rid"
    and g': "g' = foldl (merge_keyed_edge_row ty rid props) g ?rows"
    by (auto simp: merge_keyed_edge_def Let_def ref_rows_def split: if_splits)
  have rr: "ref_rows g' x y = ?rows"
    by (rule ref_rows_cong) (rule merge_keyed_edge_vertices [OF m])
  have "foldl (merge_keyed_edge_row ty rid props) g' ?rows = g'"
  proof (cases "?rows = []")
    case True
    then show ?thesis by simp
  next
    case False
    with st have "rid \<noteq> JNull" using storable_not_null by blast
    then show ?thesis
      unfolding g'
      by (intro foldl_merge_keyed_edge_row_fixed foldl_merge_keyed_edge_row_settles [OF p])
  qed
  then show ?thesis
    using ok st rr by (auto simp: merge_keyed_edge_def Let_def ref_rows_def)
qed

subsection \<open>Transactions on a store that refuses nothing\<close>

lemma execute_write_faults: "faults (snd (execute_write c s)) = tl (faults s)"
  by (simp add: execute_write_def refuses_next_def Let_def split: sum.splits)

lemma execute_write_issued: "issued (snd (execute_write c s)) = issued s @ [c]"
  by (simp add: execute_write_def refuses_next_def Let_def split: sum.splits)

lemma as_str_error: "as_str v = Inl e \<Longrightarrow> e = AttributeError"
  by (cases v) simp_all

lemma run_tx_parsed: "call_parsed c \<Longrightarrow> run_tx c g \<noteq> Inl StatementNotModelled"
  by (cases c)
     (auto dest: as_str_error simp: create_node_def create_relationship_def create_stix_relationship_def
        merge_node_def merge_edge_def merge_keyed_edge_def parsed_name_def name_error_def
        Let_def split: sum.splits option.splits if_splits)

lemma outcome_parsed: "call_parsed c \<Longrightarrow> outcome s c = run_tx c (graph_of s)"
  using run_tx_parsed [of c "graph_of s"]
  by (simp add: outcome_def split: sum.splits error.splits)

lemma outcome_accepted: "run_tx c (graph_of s) = Inr g \<Longrightarrow> outcome s c = Inr g"
  by (simp add: outcome_def)

lemma execute_write_graph:
  "faults s = [] \<Longrightarrow> call_parsed c \<Longrightarrow>
   graph_of (snd (execute_write c s)) = apply_tx c (graph_of s)"
  by (simp add: execute_write_def outcome_parsed refuses_next_def apply_tx_def Let_def
        split: sum.splits)

lemma execute_write_result:
  "faults s = [] \<Longrightarrow> call_parsed c \<Longrightarrow>
   fst (execute_write c s) = (case run_tx c (graph_of s) of Inl e \<Rightarrow> Some e | Inr g \<Rightarrow> None)"
  by (simp add: execute_write_def outcome_parsed refuses_next_def Let_def split: sum.splits)

lemma execute_write_failed_graph:
  "fst (execute_write c s) \<noteq> None \<Longrightarrow> graph_of (snd (execute_write c s)) = graph_of s"
  by (auto simp: execute_write_def refuses_next_def Let_def split: sum.splits if_splits)

lemma report_refs_faults:
  "faults s = [] \<Longrightarrow> faults (report_refs obj refs s) = []"
  by (induction refs arbitrary: s) (simp_all add: execute_write_faults split: option.splits)

lemma references_parsed: "parsed_name (edge_type ''REFERENCES'')"
  by (simp add: parsed_name_def edge_type_def replace_chr_def
        ident_start_def ident_part_def)

lemma report_refs_graph:
  "faults s = [] \<Longrightarrow> obj ''id'' = Some x \<Longrightarrow>
   graph_of (report_refs obj refs s) = refs_pure x refs (graph_of s)"
proof (induction refs arbitrary: s)
  case Nil
  then show ?case by (simp add: refs_pure_def)
next
  case (Cons r refs)
  let ?s = "snd (execute_write (CreateRelationship x r ''REFERENCES'') s)"
  have f: "faults ?s = []"
    using Cons.prems(1) by (simp add: execute_write_faults)
  have "graph_of (report_refs obj refs ?s) = refs_pure x refs (graph_of ?s)"
    using f Cons.prems(2) by (rule Cons.IH)
  then show ?case
    using Cons.prems
    by (simp add: execute_write_graph references_parsed refs_pure_def)
qed

subsection \<open>Reference edges of a report, repeated\<close>

lemma references_ok: "cypher_name_ok (edge_type ''REFERENCES'')"
  by (simp add: edge_type_def replace_chr_def ident_start_def ident_part_def)

lemma apply_ref:
  "merge_edge x r (edge_type ''REFERENCES'') g =
     Inr (apply_tx (CreateRelationship x r ''REFERENCES'') g)"
  by (simp add: apply_tx_def create_relationship_def merge_edge_eq [OF references_ok])

lemma refs_pure_vertices: "vertices (refs_pure x refs g) = vertices g"
proof (induction refs arbitrary: g)
  case Nil
  show ?case by (simp add: refs_pure_def)
next
  case (Cons r refs)
  have "vertices (apply_tx (CreateRelationship x r ''REFERENCES'') g) = vertices g"
    by (rule merge_edge_vertices [OF apply_ref])
  with Cons [of "apply_tx (CreateRelationship x r ''REFERENCES'') g"] show ?case
    by (simp add: refs_pure_def)
qed

lemma refs_pure_covered_mono:
  "covered ty y r g \<Longrightarrow> covered ty y r (refs_pure x refs g)"
proof (induction refs arbitrary: g)
  case Nil
  then show ?case by (simp add: refs_pure_def)
next
  case (Cons q refs)
  have "covered ty y r (apply_tx (CreateRelationship x q ''REFERENCES'') g)"
    using apply_ref Cons.prems by (rule merge_edge_covered_mono)
  from Cons.IH [OF this] show ?case
    by (simp add: refs_pure_def)
qed

lemma refs_pure_covered:
  "r \<in> set refs \<Longrightarrow> covered (edge_type ''REFERENCES'') x r (refs_pure x refs g)"
proof (induction refs arbitrary: g)
  case Nil
  then show ?case by simp
next
  case (Cons q refs)
  let ?g = "apply_tx (CreateRelationship x q ''REFERENCES'') g"
  have step: "refs_pure x (q # refs) g = refs_pure x refs ?g"
    by (simp add: refs_pure_def)
  show ?case
  proof (cases "r = q")
    case True
    have "covered (edge_type ''REFERENCES'') x q ?g"
      using apply_ref by (rule merge_edge_covered)
    then show ?thesis
      unfolding step True by (rule refs_pure_covered_mono)
  next
    case False
    with Cons.prems have "r \<in> set refs" by simp
    then show ?thesis
      unfolding step by (rule Cons.IH)
  qed
qed

lemma refs_pure_fixed:
  "(\<And>r. r \<in> set refs \<Longrightarrow> covered (edge_type ''REFERENCES'') x r g) \<Longrightarrow>
   refs_pure x refs g = g"
proof (induction refs)
  case Nil
  show ?case by (simp add: refs_pure_def)
next
  case (Cons q refs)
  have "covered (edge_type ''REFERENCES'') x q g"
    by (rule Cons.prems) simp
  then have "merge_edge x q (edge_type ''REFERENCES'') g = Inr g"
    by (rule merge_edge_fixed [OF references_ok])
  then have q: "apply_tx (CreateRelationship x q ''REFERENCES'') g = g"
    by (simp add: apply_ref)
  have "refs_pure x refs g = g"
    by (rule Cons.IH) (rule Cons.prems, simp)
  then show ?case
    using q by (simp add: refs_pure_def)
qed

lemma refs_pure_again: "refs_pure x refs (refs_pure x refs g) = refs_pure x refs g"
  by (rule refs_pure_fixed) (rule refs_pure_covered)

lemma graph_edges_update:
  "vertices g2 = vertices g1 \<Longrightarrow> g1\<lparr>edges := edges g2\<rparr> = (g2 :: graph)"
  by (cases g1, cases g2) simp

lemma create_node_after_refs:
  assumes "create_node obj g = Inr g1"
  shows "create_node obj (refs_pure x refs g1) = Inr (refs_pure x refs g1)"
  using create_node_again [OF assms, of "edges (refs_pure x refs g1)"]
  by (simp add: graph_edges_update [OF refs_pure_vertices])

lemma create_node_fixed:
  assumes "create_node obj g = Inr g1"
  shows "create_node obj g1 = Inr g1"
  using create_node_again [OF assms, of "edges g1"] by simp

lemma apply_tx_stix_again:
  "apply_tx (CreateStixRelationship x y ty (dict_get obj ''id'' JNull) (scalar_props obj))
     (apply_tx (CreateStixRelationship x y ty (dict_get obj ''id'' JNull) (scalar_props obj)) g) =
   apply_tx (CreateStixRelationship x y ty (dict_get obj ''id'' JNull) (scalar_props obj)) g"
proof (cases "merge_keyed_edge x y (edge_type ty) (dict_get obj ''id'' JNull) (scalar_props obj) g")
  case (Inl e)
  then show ?thesis
    by (simp add: apply_tx_def create_stix_relationship_def)
next
  case (Inr g')
  from merge_keyed_edge_again [OF scalar_props_get_id Inr] Inr show ?thesis
    by (simp add: apply_tx_def create_stix_relationship_def)
qed

subsection \<open>Loading a record, on the graph alone\<close>

lemma load_stix_object_snd: "snd (load_stix_object obj s) = snd (load_body obj s)"
  by (cases "load_body obj s") (simp add: load_stix_object_def split: option.splits)

lemma load_stix_object_fst: "fst (load_stix_object obj s) = None"
  by (cases "load_body obj s") (simp add: load_stix_object_def split: option.splits)

lemma load_body_entity_pure:
  assumes ty: "dict_get obj ''type'' (JStr '''') \<noteq> JStr ''relationship''"
      and f: "faults s = []" and p: "names_parsed obj"
  shows "graph_of (snd (load_body obj s)) = entity_pure obj (graph_of s) \<and>
         faults (snd (load_body obj s)) = []"
proof -
  have cp: "call_parsed (CreateNode obj)"
    using p ty by (simp add: names_parsed_def)
  obtain r1 s1 where ew: "execute_write (CreateNode obj) s = (r1, s1)" by force
  have f1: "faults s1 = []"
    using execute_write_faults [of "CreateNode obj" s] f ew by simp
  have g1: "graph_of s1 = apply_tx (CreateNode obj) (graph_of s)"
    using execute_write_graph [OF f cp] ew by simp
  have r1: "r1 = (case create_node obj (graph_of s) of Inl e \<Rightarrow> Some e | Inr g \<Rightarrow> None)"
    using execute_write_result [OF f cp] ew by simp
  show ?thesis
  proof (cases "create_node obj (graph_of s)")
    case (Inl e)
    then show ?thesis
      using f1 g1 r1 by (simp add: load_body_entity [OF ty] ew entity_pure_def apply_tx_def)
  next
    case (Inr g')
    then have x: "obj ''id'' \<noteq> None"
      by (auto simp: create_node_def Let_def split: sum.splits option.splits)
    then obtain x where x: "obj ''id'' = Some x" by blast
    have rg: "graph_of (report_refs obj refs s1) = refs_pure x refs (graph_of s1)" for refs
      using f1 x by (rule report_refs_graph)
    have rf: "faults (report_refs obj refs s1) = []" for refs
      using f1 by (rule report_refs_faults)
    show ?thesis
      using Inr f1 g1 r1 x rg rf
      by (auto simp: load_body_entity [OF ty] ew entity_pure_def apply_tx_def split: sum.splits)
  qed
qed

lemma load_body_relationship_pure:
  assumes ty: "dict_get obj ''type'' (JStr '''') = JStr ''relationship''"
      and f: "faults s = []" and p: "names_parsed obj"
  shows "graph_of (snd (load_body obj s)) = relationship_pure obj (graph_of s) \<and>
         faults (snd (load_body obj s)) = []"
proof (cases "as_str (dict_get obj ''relationship_type'' (JStr ''RELATED_TO''))")
  case (Inl e)
  then show ?thesis
    using f by (simp add: load_body_relationship [OF ty] relationship_pure_def)
next
  case (Inr rt)
  have cp: "call_parsed (CreateStixRelationship a b (upper rt) k ps)" for a b k ps
    using p ty Inr by (simp add: names_parsed_def)
  show ?thesis
    using f Inr
    by (simp add: load_body_relationship [OF ty] relationship_pure_def
          execute_write_graph [OF f cp] execute_write_faults)
qed

lemma load_stix_object_pure:
  assumes f: "faults s = []" and p: "names_parsed obj"
  shows "graph_of (snd (load_stix_object obj s)) = load_pure obj (graph_of s) \<and>
         faults (snd (load_stix_object obj s)) = []"
proof (cases "dict_get obj ''type'' (JStr '''') = JStr ''relationship''")
  case True
  from load_body_relationship_pure [OF True f p] True show ?thesis
    by (simp add: load_stix_object_snd load_pure_def)
next
  case False
  from load_body_entity_pure [OF False f p] False show ?thesis
    by (simp add: load_stix_object_snd load_pure_def)
qed

lemma entity_pure_again: "entity_pure obj (entity_pure obj g) = entity_pure obj g"
proof (cases "create_node obj g")
  case (Inl e)
  then show ?thesis by (simp add: entity_pure_def)
next
  case (Inr g1)
  note fx = create_node_fixed [OF Inr]
  show ?thesis
  proof (cases "dict_get obj ''type'' (JStr '''') = JStr ''report'' \<and> obj ''object_refs'' \<noteq> None")
    case False
    then show ?thesis
      using Inr fx by (auto simp: entity_pure_def)
  next
    case rep: True
    show ?thesis
    proof (cases "py_iter (dict_get obj ''object_refs'' JNull)")
      case (Inl e)
      then show ?thesis
        using Inr fx rep by (simp add: entity_pure_def)
    next
      case refs: (Inr refs)
      show ?thesis
      proof (cases "obj ''id''")
        case None
        then show ?thesis
          using Inr fx rep refs by (simp add: entity_pure_def)
      next
        case (Some x)
        have e1: "entity_pure obj g = refs_pure x refs g1"
          using Inr rep refs Some by (simp add: entity_pure_def)
        have "entity_pure obj (refs_pure x refs g1) = refs_pure x refs (refs_pure x refs g1)"
          using create_node_after_refs [OF Inr, of x refs] rep refs Some
          by (simp add: entity_pure_def)
        then show ?thesis
          by (simp add: e1 refs_pure_again)
      qed
    qed
  qed
qed

lemma relationship_pure_again:
  "relationship_pure obj (relationship_pure obj g) = relationship_pure obj g"
  by (simp add: relationship_pure_def apply_tx_stix_again split: sum.splits)

lemma load_pure_again: "load_pure obj (load_pure obj g) = load_pure obj g"
  by (simp add: load_pure_def entity_pure_again relationship_pure_again)

lemma reload_pure:
  assumes f: "faults s = []" and p: "names_parsed obj"
  shows "graph_of (reload (Suc n) obj s) = load_pure obj (graph_of s) \<and>
         faults (reload (Suc n) obj s) = []"
proof (induction n)
  case 0
  show ?case
    using load_stix_object_pure [OF f p] by (simp add: reload_def)
next
  case (Suc n)
  then have a: "graph_of (reload (Suc n) obj s) = load_pure obj (graph_of s)"
    and b: "faults (reload (Suc n) obj s) = []" by simp_all
  have c: "reload (Suc (Suc n)) obj s = snd (load_stix_object obj (reload (Suc n) obj s))"
    by (simp add: reload_def)
  show ?case
    unfolding c using load_stix_object_pure [OF b p] by (simp add: a load_pure_again)
qed

subsection \<open>Pages\<close>

lemma page_objects: "page objs m nx ''objects'' = Some (JList objs)"
  by (simp add: page_def split: option.splits)

lemma page_go:
  "(truthy (dict_get (page objs m nx) ''more'' (JBool False)) \<and>
    truthy (dict_get (page objs m nx) ''next'' JNull)) = continues (objs, m, nx)"
  by (cases nx) (simp_all add: page_def dict_get_def)

lemma page_next:
  "continues (objs, m, nx) \<Longrightarrow>
   Next (dict_get (page objs m nx) ''next'' JNull) = next_request (objs, m, nx)"
  by (cases nx) (simp_all add: page_def dict_get_def)

lemma fetch_loop_serves:
  "serves feed url ps \<Longrightarrow>
   fetch_loop feed (Some url) acc sent =
     Some (Inr (acc @ concat (map fst ps)), sent @ requests_for url ps)"
proof (induction feed url ps arbitrary: acc sent rule: serves.induct)
  case (1 feed url)
  then show ?case by simp
next
  case (2 feed url p)
  obtain objs m nx where p: "p = (objs, m, nx)" by (cases p)
  from 2 show ?case
    by (subst fetch_loop.simps)
       (simp add: p page_objects page_go fetch_loop.simps [of _ None])
next
  case (3 feed url p q ps)
  obtain objs m nx where p: "p = (objs, m, nx)" by (cases p)
  from 3 have c: "continues (objs, m, nx)" and s: "serves feed (next_request p) (q # ps)"
    and f: "feed url = Inr (page objs m nx)"
    by (simp_all add: p)
  have ih: "fetch_loop feed (Some (next_request (objs, m, nx))) (acc @ objs) (sent @ [url]) =
      Some (Inr ((acc @ objs) @ concat (map fst (q # ps))),
            (sent @ [url]) @ requests_for (next_request (objs, m, nx)) (q # ps))"
    using "3.IH" [OF s, of "acc @ objs" "sent @ [url]"] by (simp only: p)
  show ?case
    by (subst fetch_loop.simps)
       (simp add: f page_objects page_go c page_next [OF c] ih p del: serves.simps)
qed

subsection \<open>Node upserts that succeed and that fail\<close>

lemma stixobject_ok: "cypher_name_ok ''STIXObject''"
  by (simp add: ident_start_def ident_part_def)

lemma node_label_stixobject: "node_label ''STIXObject'' = ''STIXObject''"
  by (simp add: node_label_def replace_chr_def)

lemma merge_node_hit:
  assumes "merge_node label x props g = Inr g'" and p: "id_agrees props x"
  shows "list_ex (node_hit label x) (vertices g')"
proof -
  from assms(1) have ok: "cypher_name_ok label" "storable x"
    by (auto simp: merge_node_def split: if_splits)
  let ?f = "\<lambda>v. if node_hit label x v then v\<lparr>v_props := v_props v ++ props\<rparr> else v"
  show ?thesis
  proof (cases "list_ex (node_hit label x) (vertices g)")
    case True
    with assms(1) ok have g': "g' = g\<lparr>vertices := map ?f (vertices g)\<rparr>"
      by (simp add: merge_node_def)
    from True obtain v where v: "v \<in> set (vertices g)" "node_hit label x v"
      by (rule list_exE)
    have "node_hit label x (?f v)"
      using node_hit_merge [OF p v(2)] v(2) by simp
    with v(1) have "list_ex (node_hit label x) (map ?f (vertices g))"
      by (rule list_ex_mapI)
    then show ?thesis by (simp add: g')
  next
    case False
    with assms(1) ok have g': "g' = g\<lparr>vertices := vertices g @
        [\<lparr>v_labels = [label], v_props = [''id'' \<mapsto> x] ++ props\<rparr>]\<rparr>"
      by (simp add: merge_node_def)
    show ?thesis
      using node_hit_new [OF p storable_not_null [OF ok(2)], of label] by (simp add: g')
  qed
qed

lemma merge_node_succeeds:
  "cypher_name_ok label \<Longrightarrow> storable x \<Longrightarrow> \<exists>g'. merge_node label x props g = Inr g'"
  by (simp add: merge_node_def)

lemma load_entity_only_node:
  assumes "dict_get obj ''type'' (JStr '''') \<noteq> JStr ''relationship''"
      and "dict_get obj ''type'' (JStr '''') \<noteq> JStr ''report''"
  shows "snd (load_stix_object obj s) = snd (execute_write (CreateNode obj) s)"
  using assms(2)
  by (cases "execute_write (CreateNode obj) s")
     (simp add: load_stix_object_snd load_body_entity [OF assms(1)] split: option.splits)

lemma node_upsert_without_id:
  assumes "obj ''id'' = None"
  shows "fst (execute_write (CreateNode obj) s) \<noteq> None"
proof (cases "refuses_next s")
  case True
  then show ?thesis by (simp add: execute_write_def Let_def)
next
  case False
  have "create_node obj (graph_of s) = Inl AttributeError \<or>
        create_node obj (graph_of s) = Inl KeyError"
    using assms
    by (cases "dict_get obj ''type'' (JStr ''STIXObject'')")
       (simp_all add: create_node_def Let_def)
  then have "outcome s (CreateNode obj) = Inl AttributeError \<or>
             outcome s (CreateNode obj) = Inl KeyError"
    by (auto simp: outcome_def)
  then show ?thesis
    using False by (auto simp: execute_write_def Let_def)
qed

lemma load_body_node_failed:
  assumes "dict_get obj ''type'' (JStr '''') \<noteq> JStr ''relationship''"
      and "fst (execute_write (CreateNode obj) s) \<noteq> None"
  shows "load_body obj s = execute_write (CreateNode obj) s"
  using assms(2)
  by (cases "execute_write (CreateNode obj) s")
     (auto simp: load_body_entity [OF assms(1)])

lemma execute_write_failed_store:
  "fst (execute_write c s) \<noteq> None \<Longrightarrow>
   snd (execute_write c s) = s\<lparr>faults := tl (faults s), issued := issued s @ [c]\<rparr>"
  by (auto simp: execute_write_def Let_def split: sum.splits if_splits)

subsection \<open>Labels and edge types\<close>

lemma sanitizers_agree_without_space:
  "CHR '' '' \<notin> set t \<Longrightarrow> node_label t = edge_type t"
  by (induction t) (auto simp: node_label_def edge_type_def replace_chr_def)

subsection \<open>One reference edge\<close>

lemma product_Nil_right: "List.product xs [] = []"
  by (induction xs) simp_all

lemma references_name: "edge_type ''REFERENCES'' = ''REFERENCES''"
  by (simp add: edge_type_def replace_chr_def)

lemma references_apply:
  "merge_edge x r ''REFERENCES'' g = Inr (apply_tx (CreateRelationship x r ''REFERENCES'') g)"
  using apply_ref [of x r g] by (simp add: references_name)

lemma execute_write_accepted:
  "\<not> refuses_next s \<Longrightarrow> run_tx c (graph_of s) = Inr g \<Longrightarrow>
   execute_write c s = (None, s\<lparr>faults := tl (faults s), issued := issued s @ [c], graph_of := g\<rparr>)"
  by (simp add: execute_write_def outcome_accepted Let_def)

lemma reference_edge_accepted:
  "\<not> refuses_next s \<Longrightarrow>
   execute_write (CreateRelationship x r ''REFERENCES'') s =
     (None, s\<lparr>faults := tl (faults s),
               issued := issued s @ [CreateRelationship x r ''REFERENCES''],
               graph_of := apply_tx (CreateRelationship x r ''REFERENCES'') (graph_of s)\<rparr>)"
  by (rule execute_write_accepted)
     (simp_all add: create_relationship_def references_name references_apply)

lemma reference_edge_noop:
  "match_ids (vertices g) x = [] \<or> match_ids (vertices g) r = [] \<Longrightarrow>
   apply_tx (CreateRelationship x r ''REFERENCES'') g = g"
  using references_apply [of x r g] references_ok
  by (auto simp: merge_edge_def references_name product_Nil_right)

lemma reference_edge_joins:
  assumes "i \<in> set (match_ids (vertices g) x)" and "j \<in> set (match_ids (vertices g) r)"
  shows "list_ex (edge_hit i j ''REFERENCES'') (edges (apply_tx (CreateRelationship x r ''REFERENCES'') g))"
proof -
  let ?g = "apply_tx (CreateRelationship x r ''REFERENCES'') g"
  have c: "covered ''REFERENCES'' x r ?g"
    using references_apply by (rule merge_edge_covered)
  have v: "vertices ?g = vertices g"
    using references_apply by (rule merge_edge_vertices)
  have "(i, j) \<in> set (ref_rows ?g x r)"
    using assms by (simp add: ref_rows_def v)
  with c show ?thesis
    unfolding covered_def by (auto dest: list_allD)
qed

lemma reference_edge_new:
  assumes "match_ids (vertices g) x = [i]" and "match_ids (vertices g) r = [j]"
      and "\<not> list_ex (edge_hit i j ''REFERENCES'') (edges g)"
  shows "apply_tx (CreateRelationship x r ''REFERENCES'') g =
         g\<lparr>edges := edges g @ [\<lparr>e_src = i, e_tgt = j, e_type = ''REFERENCES'', e_props = Map.empty\<rparr>]\<rparr>"
  using references_apply [of x r g] references_ok assms
  by (simp add: merge_edge_def references_name merge_edge_row_def)

subsection \<open>The writes of a report\<close>

lemma report_refs_issued:
  "obj ''id'' = Some x \<Longrightarrow>
   issued (report_refs obj refs s) =
     issued s @ map (\<lambda>r. CreateRelationship x r ''REFERENCES'') refs"
  by (induction refs arbitrary: s) (simp_all add: execute_write_issued)

lemma load_report:
  assumes "dict_get obj ''type'' (JStr '''') = JStr ''report''"
      and "obj ''object_refs'' = Some v" and "py_iter v = Inr refs"
      and "fst (execute_write (CreateNode obj) s) = None"
  shows "snd (load_stix_object obj s) = report_refs obj refs (snd (execute_write (CreateNode obj) s))"
proof -
  have t: "dict_get obj ''type'' (JStr '''') \<noteq> JStr ''relationship''"
    using assms(1) by simp
  show ?thesis
    using assms
    by (cases "execute_write (CreateNode obj) s")
       (simp add: load_stix_object_snd load_body_entity [OF t] dict_get_def)
qed

subsection \<open>One vertex per label and id\<close>

lemma shares_key_iff:
  "shares_key u v = (\<exists>l x. node_hit l x u \<and> node_hit l x v)"
  by (auto simp: shares_key_def node_hit_def has_id_def list_ex_iff split: option.splits)

lemma shares_key_cong:
  "v_labels u' = v_labels u \<Longrightarrow> v_props u' ''id'' = v_props u ''id'' \<Longrightarrow>
   v_labels v' = v_labels v \<Longrightarrow> v_props v' ''id'' = v_props v ''id'' \<Longrightarrow>
   shares_key u' v' = shares_key u v"
  by (simp add: shares_key_def split: option.splits)

lemma one_per_key_map:
  assumes "\<And>v. v_labels (f v) = v_labels v" and "\<And>v. v_props (f v) ''id'' = v_props v ''id''"
  shows "one_per_key (map f vs) = one_per_key vs"
proof (induction vs)
  case Nil
  show ?case by simp
next
  case (Cons v vs)
  have "shares_key (f v) (f u) = shares_key v u" for u
    by (rule shares_key_cong) (simp_all add: assms)
  then have "list_ex (shares_key (f v)) (map f vs) = list_ex (shares_key v) vs"
    by (simp add: list_ex_map)
  with Cons show ?case by simp
qed

lemma one_per_key_snoc:
  "one_per_key (vs @ [n]) = (one_per_key vs \<and> \<not> list_ex (\<lambda>v. shares_key v n) vs)"
  by (induction vs) auto

lemma one_per_key_nth:
  "one_per_key vs \<Longrightarrow> i < j \<Longrightarrow> j < length vs \<Longrightarrow> \<not> shares_key (vs ! i) (vs ! j)"
proof (induction vs arbitrary: i j)
  case Nil
  then show ?case by simp
next
  case (Cons v vs)
  show ?case
  proof (cases i)
    case 0
    with Cons.prems obtain k where k: "j = Suc k" "k < length vs"
      by (cases j) auto
    from Cons.prems(1) have "\<not> list_ex (shares_key v) vs" by simp
    then have "\<not> shares_key v (vs ! k)"
      using k(2) by (auto simp: list_ex_iff)
    then show ?thesis by (simp add: 0 k)
  next
    case (Suc i')
    with Cons.prems obtain k where k: "j = Suc k" "k < length vs" "i' < k"
      by (cases j) auto
    from Cons.prems(1) have "one_per_key vs" by simp
    from Cons.IH [OF this k(3) k(2)] show ?thesis by (simp add: Suc k)
  qed
qed

lemma one_per_key_unique:
  assumes "one_per_key vs" and "i < length vs" and "j < length vs"
      and "node_hit l x (vs ! i)" and "node_hit l x (vs ! j)"
  shows "i = j"
proof (rule ccontr)
  assume "i \<noteq> j"
  then consider "i < j" | "j < i" by linarith
  then show False
  proof cases
    case 1
    from one_per_key_nth [OF assms(1) 1 assms(3)] assms(4,5) show False
      by (auto simp: shares_key_iff)
  next
    case 2
    from one_per_key_nth [OF assms(1) 2 assms(2)] assms(4,5) show False
      by (auto simp: shares_key_iff)
  qed
qed

lemma merge_node_matched:
  "merge_node label x props g = Inr g' \<Longrightarrow> list_ex (node_hit label x) (vertices g) \<Longrightarrow>
   g' = g\<lparr>vertices :=
          map (\<lambda>v. if node_hit label x v then v\<lparr>v_props := v_props v ++ props\<rparr> else v) (vertices g)\<rparr>"
  by (simp add: merge_node_def split: if_splits)

lemma merge_node_created:
  "merge_node label x props g = Inr g' \<Longrightarrow> \<not> list_ex (node_hit label x) (vertices g) \<Longrightarrow>
   g' = g\<lparr>vertices := vertices g @ [\<lparr>v_labels = [label], v_props = [''id'' \<mapsto> x] ++ props\<rparr>]\<rparr>"
  by (simp add: merge_node_def split: if_splits)

lemma merged_id:
  "id_agrees props x \<Longrightarrow> has_id ps x \<Longrightarrow> (ps ++ props) ''id'' = ps ''id''"
  by (auto simp: id_agrees_def has_id_def map_add_def split: option.splits)

lemma merge_node_one_per_key:
  assumes m: "merge_node label x props g = Inr g'" and p: "id_agrees props x"
      and o: "one_per_key (vertices g)"
  shows "one_per_key (vertices g')"
proof (cases "list_ex (node_hit label x) (vertices g)")
  case True
  let ?f = "\<lambda>v. if node_hit label x v then v\<lparr>v_props := v_props v ++ props\<rparr> else v"
  have l: "v_labels (?f v) = v_labels v" for v by simp
  have i: "v_props (?f v) ''id'' = v_props v ''id''" for v
    using merged_id [OF p, of "v_props v"] by (simp add: node_hit_def)
  have "one_per_key (map ?f (vertices g)) = one_per_key (vertices g)"
    using l i by (rule one_per_key_map)
  then show ?thesis
    using o by (simp add: merge_node_matched [OF m True])
next
  case False
  let ?n = "\<lparr>v_labels = [label], v_props = [''id'' \<mapsto> x] ++ props\<rparr>"
  from m have st: "storable x"
    by (auto simp: merge_node_def split: if_splits)
  have nh: "node_hit l y ?n \<Longrightarrow> l = label \<and> y = x" for l y
    using p by (auto simp: node_hit_def has_id_def id_agrees_def map_add_def split: option.splits)
  have "\<not> shares_key v ?n" if "v \<in> set (vertices g)" for v
  proof
    assume "shares_key v ?n"
    then obtain l y where "node_hit l y v" "node_hit l y ?n"
      by (auto simp: shares_key_iff)
    with nh have "node_hit label x v" by blast
    with that False show False by (auto simp: list_ex_iff)
  qed
  then have "\<not> list_ex (\<lambda>v. shares_key v ?n) (vertices g)"
    by (auto simp: list_ex_iff)
  then show ?thesis
    using o by (simp add: merge_node_created [OF m False] one_per_key_snoc)
qed

lemma run_tx_one_per_key:
  assumes "run_tx c g = Inr g'" and "one_per_key (vertices g)"
  shows "one_per_key (vertices g')"
proof (cases c)
  case (CreateNode obj)
  with assms(1) obtain t x where x: "obj ''id'' = Some x"
    and m: "merge_node (node_label t) x (scalar_props obj) g = Inr g'"
    by (auto simp: create_node_def Let_def split: sum.splits option.splits)
  have "id_agrees (scalar_props obj) x"
    using x by (rule scalar_props_id)
  with m show ?thesis
    using assms(2) by (rule merge_node_one_per_key)
next
  case (CreateRelationship s t ty)
  with assms(1) have "vertices g' = vertices g"
    by (simp add: create_relationship_def merge_edge_vertices)
  with assms(2) show ?thesis by simp
next
  case (CreateStixRelationship s t ty rid props)
  with assms(1) have "vertices g' = vertices g"
    by (simp add: create_stix_relationship_def merge_keyed_edge_vertices)
  with assms(2) show ?thesis by simp
qed

lemma execute_write_one_per_key:
  "one_per_key (vertices (graph_of s)) \<Longrightarrow> call_parsed c \<Longrightarrow>
   one_per_key (vertices (graph_of (snd (execute_write c s))))"
  by (auto simp: execute_write_def outcome_parsed Let_def run_tx_one_per_key split: sum.splits)

lemma report_refs_one_per_key:
  "one_per_key (vertices (graph_of s)) \<Longrightarrow>
   one_per_key (vertices (graph_of (report_refs obj refs s)))"
  by (induction refs arbitrary: s)
     (simp_all add: execute_write_one_per_key references_parsed split: option.splits)

lemma load_body_one_per_key:
  assumes o: "one_per_key (vertices (graph_of s))" and p: "names_parsed obj"
  shows "one_per_key (vertices (graph_of (snd (load_body obj s))))"
proof (cases "dict_get obj ''type'' (JStr '''') = JStr ''relationship''")
  case True
  show ?thesis
  proof (cases "as_str (dict_get obj ''relationship_type'' (JStr ''RELATED_TO''))")
    case (Inl e)
    then show ?thesis
      using o by (simp add: load_body_relationship [OF True])
  next
    case (Inr rt)
    have cp: "call_parsed (CreateStixRelationship a b (upper rt) k ps)" for a b k ps
      using p True Inr by (simp add: names_parsed_def)
    show ?thesis
      using o Inr execute_write_one_per_key [OF o cp]
      by (simp add: load_body_relationship [OF True])
  qed
next
  case False
  have cp: "call_parsed (CreateNode obj)"
    using p False by (simp add: names_parsed_def)
  obtain r1 s1 where a: "execute_write (CreateNode obj) s = (r1, s1)" by force
  from execute_write_one_per_key [OF o cp] a
  have s1: "one_per_key (vertices (graph_of s1))" by simp
  show ?thesis
    using s1 report_refs_one_per_key [OF s1]
    by (auto simp: load_body_entity [OF False] a split: option.splits sum.splits)
qed

lemma process_objects_one_per_key:
  "one_per_key (vertices (graph_of s)) \<Longrightarrow> list_all names_parsed objs \<Longrightarrow>
   one_per_key (vertices (graph_of (process_objects objs s)))"
  by (induction objs arbitrary: s) (simp_all add: load_stix_object_snd load_body_one_per_key)

lemma create_node_matched:
  assumes "as_str (dict_get obj ''type'' (JStr ''STIXObject'')) = Inr t" and "obj ''id'' = Some x"
      and "cypher_name_ok (node_label t)" and "storable x"
      and "list_ex (node_hit (node_label t) x) (vertices g)"
  shows "create_node obj g =
     Inr (g\<lparr>vertices :=
            map (\<lambda>v. if node_hit (node_label t) x v
                      then v\<lparr>v_props := v_props v ++ scalar_props obj\<rparr> else v)
                (vertices g)\<rparr>)"
  using assms by (simp add: create_node_def merge_node_def Let_def)

subsection \<open>A new relationship edge\<close>



subsection \<open>Relationship edges for every matched pair\<close>













subsection \<open>Idempotence for the names that the model parses\<close>

lemma load_idempotent_parsed:
  assumes "faults s = []" and "names_parsed obj" and "1 \<le> n"
  shows "graph_of (reload n obj s) = graph_of (snd (load_stix_object obj s))"
proof -
  from assms(3) obtain m where n: "n = Suc m" by (cases n) auto
  show ?thesis
    using reload_pure [OF assms(1,2), of m] load_stix_object_pure [OF assms(1,2)]
    by (simp add: n)
qed

subsection \<open>A node upsert that creates a vertex\<close>

lemma create_node_created:
  assumes "as_str (dict_get obj ''type'' (JStr ''STIXObject'')) = Inr t" and "obj ''id'' = Some x"
      and "cypher_name_ok (node_label t)" and "storable x"
      and "\<not> list_ex (node_hit (node_label t) x) (vertices g)"
  shows "create_node obj g =
     Inr (g\<lparr>vertices := vertices g @
            [\<lparr>v_labels = [node_label t], v_props = [''id'' \<mapsto> x] ++ scalar_props obj\<rparr>]\<rparr>)"
  using assms by (simp add: create_node_def merge_node_def Let_def)

section \<open>The claims\<close>

text \<open>
  C1 (idempotence). The claim fails on the code: the type of a record is spliced into the
  node statement with hyphens replaced and nothing else, so the type \<^verbatim>\<open>A) CREATE (m:B\<close>
  closes the pattern of the MERGE and adds a CREATE clause. On a store that runs the
  statement (it refuses nothing, and the load raises nothing), loading the record once
  leaves a vertex labelled \<open>A\<close> and a vertex labelled \<open>B\<close>, and loading it a second time
  adds another vertex labelled \<open>B\<close> with the same id: the graph after two loads is not
  the graph after one. For the records whose spliced names the model parses, loading
  \<open>n \<ge> 1\<close> times leaves the graph that loading once leaves (lemma
  \<open>load_idempotent_parsed\<close>).
\<close>

theorem added_clause_duplicates_on_reload:
  "as_str (dict_get clause_c1 ''type'' (JStr ''STIXObject'')) = Inr ''A) CREATE (m:B'' \<and>
   node_label ''A) CREATE (m:B'' = ''A) CREATE (m:B'' \<and>
   node_statement (node_label ''A) CREATE (m:B'') =
     ''MERGE (n:A) CREATE (m:B { id: $id }) SET n += $props'' \<and>
   faults clause_store = [] \<and>
   fst (load_body clause_c1 clause_store) = None \<and>
   fst (load_body clause_c1 (reload 1 clause_c1 clause_store)) = None \<and>
   map v_labels (vertices (graph_of (reload 1 clause_c1 clause_store))) = [[''A''], [''B'']] \<and>
   map v_labels (vertices (graph_of (reload 2 clause_c1 clause_store))) =
     [[''A''], [''B''], [''B'']] \<and>
   match_ids (vertices (graph_of (reload 1 clause_c1 clause_store))) (JStr ''c1'') = [0, 1] \<and>
   match_ids (vertices (graph_of (reload 2 clause_c1 clause_store))) (JStr ''c1'') = [0, 1, 2] \<and>
   graph_of (reload 2 clause_c1 clause_store) \<noteq> graph_of (reload 1 clause_c1 clause_store)"
proof -
  have a: "as_str (dict_get clause_c1 ''type'' (JStr ''STIXObject'')) = Inr ''A) CREATE (m:B''"
    by (simp add: clause_c1_def dict_get_def)
  have b: "node_label ''A) CREATE (m:B'' = ''A) CREATE (m:B''"
    by (simp add: node_label_def replace_chr_def)
  have c: "node_statement (node_label ''A) CREATE (m:B'') =
     ''MERGE (n:A) CREATE (m:B { id: $id }) SET n += $props''"
    by (simp add: b node_statement_def)
  have d: "faults clause_store = []"
    by (simp add: clause_store_def empty_store_def)
  have e: "fst (load_body clause_c1 clause_store) = None"
    by code_simp
  have f: "fst (load_body clause_c1 (reload 1 clause_c1 clause_store)) = None"
    by code_simp
  have g: "map v_labels (vertices (graph_of (reload 1 clause_c1 clause_store))) = [[''A''], [''B'']]"
    by code_simp
  have h: "map v_labels (vertices (graph_of (reload 2 clause_c1 clause_store))) =
     [[''A''], [''B''], [''B'']]"
    by code_simp
  have i: "match_ids (vertices (graph_of (reload 1 clause_c1 clause_store))) (JStr ''c1'') = [0, 1]"
    by code_simp
  have j: "match_ids (vertices (graph_of (reload 2 clause_c1 clause_store))) (JStr ''c1'') = [0, 1, 2]"
    by code_simp
  have k: "graph_of (reload 2 clause_c1 clause_store) \<noteq> graph_of (reload 1 clause_c1 clause_store)"
  proof
    assume "graph_of (reload 2 clause_c1 clause_store) = graph_of (reload 1 clause_c1 clause_store)"
    then have "map v_labels (vertices (graph_of (reload 2 clause_c1 clause_store))) =
        map v_labels (vertices (graph_of (reload 1 clause_c1 clause_store)))"
      by (rule arg_cong)
    then show False
      by (simp only: g h) simp
  qed
  show ?thesis
    by (intro conjI) (rule a b c d e f g h i j k)+
qed

text \<open>
  C2 (one transaction per record), as the claim states it, fails on the code: the store
  accepts the node upsert of the report and refuses the upsert of its first reference
  edge; the report's vertex is in the graph afterwards all the same, and the edge, which
  is there when nothing is refused, is not.
\<close>

theorem failed_edge_leaves_node_committed:
  "fst (execute_write (CreateNode report_r1) faulty_store) = None \<and>
   fst (execute_write (CreateRelationship (JStr ''r1'') (JStr ''i1'') ''REFERENCES'')
          (snd (execute_write (CreateNode report_r1) faulty_store))) = Some ServiceUnavailable \<and>
   match_ids (vertices (graph_of faulty_store)) (JStr ''r1'') = [] \<and>
   match_ids (vertices (graph_of (snd (load_stix_object report_r1 faulty_store)))) (JStr ''r1'') = [1] \<and>
   edges (graph_of (snd (load_stix_object report_r1 faulty_store))) = [] \<and>
   length (edges (graph_of (snd (load_stix_object report_r1 (faulty_store\<lparr>faults := []\<rparr>))))) = 1"
proof (intro conjI)
  show "fst (execute_write (CreateNode report_r1) faulty_store) = None"
    by code_simp
  show "fst (execute_write (CreateRelationship (JStr ''r1'') (JStr ''i1'') ''REFERENCES'')
          (snd (execute_write (CreateNode report_r1) faulty_store))) = Some ServiceUnavailable"
    by code_simp
  show "match_ids (vertices (graph_of faulty_store)) (JStr ''r1'') = []"
    by code_simp
  show "match_ids (vertices (graph_of (snd (load_stix_object report_r1 faulty_store)))) (JStr ''r1'') = [1]"
    by code_simp
  show "edges (graph_of (snd (load_stix_object report_r1 faulty_store))) = []"
    by code_simp
  show "length (edges (graph_of (snd (load_stix_object report_r1 (faulty_store\<lparr>faults := []\<rparr>))))) = 1"
    by code_simp
qed

text \<open>
  C2 as amended. Every mutation intent of a record runs in a transaction of its own: an
  intent that fails leaves the graph as it was before that intent. When the node upsert
  of a record fails, loading the record ends there, with the graph unchanged. When the
  node upsert of a report succeeds, its reference edges are upserted one after another
  from the store the node upsert left; each edge upsert, failed or not, is followed by
  the next one. Records are loaded one after another, each from the store its
  predecessor left.
\<close>

theorem intents_commit_separately:
  "(fst (execute_write c s) \<noteq> None \<longrightarrow> graph_of (snd (execute_write c s)) = graph_of s) \<and>
   (dict_get obj ''type'' (JStr '''') \<noteq> JStr ''relationship'' \<and>
    fst (execute_write (CreateNode obj) s) \<noteq> None \<longrightarrow>
      snd (load_stix_object obj s) = snd (execute_write (CreateNode obj) s) \<and>
      graph_of (snd (load_stix_object obj s)) = graph_of s) \<and>
   (dict_get obj ''type'' (JStr '''') = JStr ''report'' \<and> obj ''object_refs'' = Some v \<and>
    py_iter v = Inr refs \<and> fst (execute_write (CreateNode obj) s) = None \<longrightarrow>
      snd (load_stix_object obj s) =
        report_refs obj refs (snd (execute_write (CreateNode obj) s))) \<and>
   (obj ''id'' = Some x \<longrightarrow>
      report_refs obj (r # rest) s =
        report_refs obj rest (snd (execute_write (CreateRelationship x r ''REFERENCES'') s))) \<and>
   process_objects (obj # objs) s = process_objects objs (snd (load_stix_object obj s))"
proof -
  have a: "graph_of (snd (execute_write c s)) = graph_of s" if "fst (execute_write c s) \<noteq> None"
    using that by (rule execute_write_failed_graph)
  have b: "snd (load_stix_object obj s) = snd (execute_write (CreateNode obj) s) \<and>
      graph_of (snd (load_stix_object obj s)) = graph_of s"
    if "dict_get obj ''type'' (JStr '''') \<noteq> JStr ''relationship''"
       "fst (execute_write (CreateNode obj) s) \<noteq> None"
    using load_body_node_failed [OF that] execute_write_failed_graph [OF that(2)]
    by (simp add: load_stix_object_snd)
  have c: "snd (load_stix_object obj s) = report_refs obj refs (snd (execute_write (CreateNode obj) s))"
    if "dict_get obj ''type'' (JStr '''') = JStr ''report''" "obj ''object_refs'' = Some v"
       "py_iter v = Inr refs" "fst (execute_write (CreateNode obj) s) = None"
    using that by (rule load_report)
  have d: "report_refs obj (r # rest) s =
        report_refs obj rest (snd (execute_write (CreateRelationship x r ''REFERENCES'') s))"
    if "obj ''id'' = Some x"
    using that by simp
  have e: "process_objects (obj # objs) s = process_objects objs (snd (load_stix_object obj s))"
    by simp
  from a b c d e show ?thesis by blast
qed

theorem intents_commit_separately_witness:
  "fst (execute_write (CreateRelationship (JStr ''r1'') (JStr ''i1'') ''REFERENCES'')
          (snd (execute_write (CreateNode report_r1) faulty_store))) \<noteq> None \<and>
   graph_of (snd (execute_write (CreateRelationship (JStr ''r1'') (JStr ''i1'') ''REFERENCES'')
          (snd (execute_write (CreateNode report_r1) faulty_store)))) =
     graph_of (snd (execute_write (CreateNode report_r1) faulty_store)) \<and>
   dict_get idless_u1 ''type'' (JStr '''') \<noteq> JStr ''relationship'' \<and>
   fst (execute_write (CreateNode idless_u1) empty_store) \<noteq> None \<and>
   graph_of (snd (load_stix_object idless_u1 empty_store)) = graph_of empty_store \<and>
   dict_get report_r1 ''type'' (JStr '''') = JStr ''report'' \<and>
   report_r1 ''object_refs'' = Some (JList [JStr ''i1'', JStr ''i2'']) \<and>
   py_iter (JList [JStr ''i1'', JStr ''i2'']) = Inr [JStr ''i1'', JStr ''i2''] \<and>
   fst (execute_write (CreateNode report_r1) faulty_store) = None \<and>
   snd (load_stix_object report_r1 faulty_store) =
     report_refs report_r1 [JStr ''i1'', JStr ''i2''] (snd (execute_write (CreateNode report_r1) faulty_store)) \<and>
   report_r1 ''id'' = Some (JStr ''r1'') \<and>
   report_refs report_r1 [JStr ''i1'', JStr ''i2''] (snd (execute_write (CreateNode report_r1) faulty_store)) =
     report_refs report_r1 [JStr ''i2'']
       (snd (execute_write (CreateRelationship (JStr ''r1'') (JStr ''i1'') ''REFERENCES'')
          (snd (execute_write (CreateNode report_r1) faulty_store))))"
proof -
  let ?s1 = "snd (execute_write (CreateNode report_r1) faulty_store)"
  have h1: "fst (execute_write (CreateRelationship (JStr ''r1'') (JStr ''i1'') ''REFERENCES'') ?s1) \<noteq> None"
    by code_simp
  have h2: "dict_get idless_u1 ''type'' (JStr '''') \<noteq> JStr ''relationship'' \<and>
            fst (execute_write (CreateNode idless_u1) empty_store) \<noteq> None"
    by code_simp
  have h3: "dict_get report_r1 ''type'' (JStr '''') = JStr ''report'' \<and>
      report_r1 ''object_refs'' = Some (JList [JStr ''i1'', JStr ''i2'']) \<and>
      py_iter (JList [JStr ''i1'', JStr ''i2'']) = Inr [JStr ''i1'', JStr ''i2''] \<and>
      report_r1 ''id'' = Some (JStr ''r1'')"
    by (simp add: report_r1_def dict_get_def)
  have h4: "fst (execute_write (CreateNode report_r1) faulty_store) = None"
    by code_simp
  note t1 = intents_commit_separately
    [of "CreateRelationship (JStr ''r1'') (JStr ''i1'') ''REFERENCES''" ?s1]
  note t2 = intents_commit_separately [of _ empty_store idless_u1]
  note t3 = intents_commit_separately [of _ faulty_store report_r1
    "JList [JStr ''i1'', JStr ''i2'']" "[JStr ''i1'', JStr ''i2'']"]
  note t4 = intents_commit_separately [of _ ?s1 report_r1 _ _ "JStr ''r1''" "JStr ''i1''" "[JStr ''i2'']"]
  have q1: "graph_of (snd (execute_write (CreateRelationship (JStr ''r1'') (JStr ''i1'') ''REFERENCES'') ?s1)) =
      graph_of ?s1"
    using t1 [THEN conjunct1] h1 by (rule mp)
  have q2: "graph_of (snd (load_stix_object idless_u1 empty_store)) = graph_of empty_store"
    using t2 [THEN conjunct2, THEN conjunct1] h2 by (rule mp [THEN conjunct2])
  have q3: "snd (load_stix_object report_r1 faulty_store) =
      report_refs report_r1 [JStr ''i1'', JStr ''i2''] ?s1"
    using t3 [THEN conjunct2, THEN conjunct2, THEN conjunct1] h3 h4 by blast
  have q4: "report_refs report_r1 [JStr ''i1'', JStr ''i2''] ?s1 =
      report_refs report_r1 [JStr ''i2'']
        (snd (execute_write (CreateRelationship (JStr ''r1'') (JStr ''i1'') ''REFERENCES'') ?s1))"
    using t4 [THEN conjunct2, THEN conjunct2, THEN conjunct2, THEN conjunct1] h3 by blast
  note h3a = h3 [THEN conjunct1] and h3b = h3 [THEN conjunct2, THEN conjunct1]
    and h3c = h3 [THEN conjunct2, THEN conjunct2, THEN conjunct1]
    and h3d = h3 [THEN conjunct2, THEN conjunct2, THEN conjunct2]
  show ?thesis
    by (intro conjI)
       (rule h1 q1 h2 [THEN conjunct1] h2 [THEN conjunct2] q2 h3a h3b h3c h3d h4 q3 q4)+
qed

text \<open>
  C3 (reference edges for every container), as the claim states it, fails on the code: a
  note is not a relationship and carries a non-empty reference list, both the note and
  the referenced indicator are in the graph after it is loaded, and yet the only write
  issued is the node upsert, and no \<^verbatim>\<open>REFERENCES\<close> edge joins the two.
\<close>

theorem other_containers_get_no_reference_edges:
  "dict_get note_n1 ''type'' (JStr '''') \<noteq> JStr ''relationship'' \<and>
   note_n1 ''object_refs'' = Some (JList [JStr ''i1'']) \<and>
   match_ids (vertices (graph_of (snd (load_stix_object note_n1 scenario_store)))) (JStr ''n1'') = [2] \<and>
   match_ids (vertices (graph_of (snd (load_stix_object note_n1 scenario_store)))) (JStr ''i1'') = [1] \<and>
   issued (snd (load_stix_object note_n1 scenario_store)) =
     issued scenario_store @ [CreateNode note_n1] \<and>
   \<not> list_ex (edge_hit 2 1 ''REFERENCES'') (edges (graph_of (snd (load_stix_object note_n1 scenario_store))))"
proof -
  have a: "dict_get note_n1 ''type'' (JStr '''') \<noteq> JStr ''relationship''"
    and b: "dict_get note_n1 ''type'' (JStr '''') \<noteq> JStr ''report''"
    and c: "note_n1 ''object_refs'' = Some (JList [JStr ''i1''])"
    by (simp_all add: note_n1_def dict_get_def)
  have d: "issued (snd (load_stix_object note_n1 scenario_store)) =
     issued scenario_store @ [CreateNode note_n1]"
    using load_entity_only_node [OF a b] by (simp add: execute_write_issued)
  have e: "match_ids (vertices (graph_of (snd (load_stix_object note_n1 scenario_store)))) (JStr ''n1'') = [2] \<and>
   match_ids (vertices (graph_of (snd (load_stix_object note_n1 scenario_store)))) (JStr ''i1'') = [1] \<and>
   \<not> list_ex (edge_hit 2 1 ''REFERENCES'') (edges (graph_of (snd (load_stix_object note_n1 scenario_store))))"
    by code_simp
  from a c d e show ?thesis by blast
qed

text \<open>
  C3 as amended. For a record whose type is exactly \<^verbatim>\<open>report\<close> and that has an
  \<^verbatim>\<open>object_refs\<close> value that can be iterated, whose node upsert succeeds: loading it
  issues the node upsert and then one \<^verbatim>\<open>REFERENCES\<close> edge upsert per referenced id, in
  the order of the list. A record of any other type that is not a relationship issues
  its node upsert only, whatever references it carries.
\<close>

theorem report_references_upserted:
  "(dict_get obj ''type'' (JStr '''') = JStr ''report'' \<and> obj ''object_refs'' = Some v \<and>
    py_iter v = Inr refs \<and> obj ''id'' = Some x \<and>
    fst (execute_write (CreateNode obj) s) = None \<longrightarrow>
      issued (snd (load_stix_object obj s)) =
        issued s @ CreateNode obj # map (\<lambda>r. CreateRelationship x r ''REFERENCES'') refs) \<and>
   (dict_get obj ''type'' (JStr '''') \<noteq> JStr ''report'' \<and>
    dict_get obj ''type'' (JStr '''') \<noteq> JStr ''relationship'' \<longrightarrow>
      issued (snd (load_stix_object obj s)) = issued s @ [CreateNode obj])"
proof -
  have a: "issued (snd (load_stix_object obj s)) =
        issued s @ CreateNode obj # map (\<lambda>r. CreateRelationship x r ''REFERENCES'') refs"
    if "dict_get obj ''type'' (JStr '''') = JStr ''report''" "obj ''object_refs'' = Some v"
       "py_iter v = Inr refs" "obj ''id'' = Some x" "fst (execute_write (CreateNode obj) s) = None"
    using load_report [OF that(1,2,3,5)] report_refs_issued [of obj x refs] that(4)
    by (simp add: execute_write_issued)
  have b: "issued (snd (load_stix_object obj s)) = issued s @ [CreateNode obj]"
    if "dict_get obj ''type'' (JStr '''') \<noteq> JStr ''report''"
       "dict_get obj ''type'' (JStr '''') \<noteq> JStr ''relationship''"
    using load_entity_only_node [OF that(2,1)] by (simp add: execute_write_issued)
  from a b show ?thesis by blast
qed

theorem report_references_upserted_witness:
  "dict_get report_r1 ''type'' (JStr '''') = JStr ''report'' \<and>
   report_r1 ''object_refs'' = Some (JList [JStr ''i1'', JStr ''i2'']) \<and>
   py_iter (JList [JStr ''i1'', JStr ''i2'']) = Inr [JStr ''i1'', JStr ''i2''] \<and>
   report_r1 ''id'' = Some (JStr ''r1'') \<and>
   fst (execute_write (CreateNode report_r1) empty_store) = None \<and>
   issued (snd (load_stix_object report_r1 empty_store)) =
     [CreateNode report_r1,
      CreateRelationship (JStr ''r1'') (JStr ''i1'') ''REFERENCES'',
      CreateRelationship (JStr ''r1'') (JStr ''i2'') ''REFERENCES''] \<and>
   dict_get note_n1 ''type'' (JStr '''') \<noteq> JStr ''report'' \<and>
   dict_get note_n1 ''type'' (JStr '''') \<noteq> JStr ''relationship'' \<and>
   issued (snd (load_stix_object note_n1 empty_store)) = [CreateNode note_n1]"
proof -
  have h1: "dict_get report_r1 ''type'' (JStr '''') = JStr ''report'' \<and>
      report_r1 ''object_refs'' = Some (JList [JStr ''i1'', JStr ''i2'']) \<and>
      py_iter (JList [JStr ''i1'', JStr ''i2'']) = Inr [JStr ''i1'', JStr ''i2''] \<and>
      report_r1 ''id'' = Some (JStr ''r1'')"
    by (simp add: report_r1_def dict_get_def)
  have h2: "fst (execute_write (CreateNode report_r1) empty_store) = None"
    by code_simp
  have h3: "dict_get note_n1 ''type'' (JStr '''') \<noteq> JStr ''report'' \<and>
      dict_get note_n1 ''type'' (JStr '''') \<noteq> JStr ''relationship''"
    by (simp add: note_n1_def dict_get_def)
  have e: "issued empty_store = []"
    by (simp add: empty_store_def)
  from report_references_upserted [of report_r1 "JList [JStr ''i1'', JStr ''i2'']"
      "[JStr ''i1'', JStr ''i2'']" "JStr ''r1''" empty_store]
    report_references_upserted [of note_n1 _ _ _ empty_store] h1 h2 h3
  show ?thesis by (simp add: e)
qed

text \<open>
  C4 (one sanitisation for labels and edge types). The claim fails on the code: for the
  type \<^verbatim>\<open>my type\<close> the node label keeps the space while the edge type name has it replaced.
  Loading a record of that type sends a statement whose label is two words, which the
  store rejects as a syntax error, so no vertex is created.
\<close>

theorem label_keeps_space_edge_type_does_not:
  "node_label ''my type'' = ''my type'' \<and> edge_type ''my type'' = ''my_type'' \<and>
   node_label ''my type'' \<noteq> edge_type ''my type'' \<and>
   fst (load_body spaced_type empty_store) = Some CypherSyntaxError \<and>
   vertices (graph_of (snd (load_stix_object spaced_type empty_store))) = []"
proof (intro conjI)
  show a: "node_label ''my type'' = ''my type''"
    by (simp add: node_label_def replace_chr_def)
  show b: "edge_type ''my type'' = ''my_type''"
    by (simp add: edge_type_def replace_chr_def)
  show "node_label ''my type'' \<noteq> edge_type ''my type''"
    by (simp add: a b)
  show "fst (load_body spaced_type empty_store) = Some CypherSyntaxError"
    by code_simp
  show "vertices (graph_of (snd (load_stix_object spaced_type empty_store))) = []"
    by code_simp
qed

text \<open>
  C5 (pagination). For a feed whose pages carry a record list, a \<^verbatim>\<open>more\<close> flag and an
  optional \<^verbatim>\<open>next\<close> token: when the pages \<open>ps\<close> are what the feed serves from the base URL
  on, each page but the last with \<^verbatim>\<open>more\<close> set and a non-empty token, the last with
  \<^verbatim>\<open>more\<close> unset or no token, then the fetcher returns, its result is the record lists of
  the pages joined in page order, and it has sent one request per page: the base request
  and then one per token.
\<close>

theorem fetch_all_pages:
  "serves feed Base ps \<Longrightarrow>
   fetch_stix_objects feed = Some (Inr (concat (map fst ps)), requests_for Base ps) \<and>
   length (requests_for Base ps) = length ps"
proof -
  have "length (requests_for u ps) = length ps" for u
    by (induction ps arbitrary: u) simp_all
  then show "serves feed Base ps \<Longrightarrow> ?thesis"
    by (simp add: fetch_stix_objects_def fetch_loop_serves)
qed

text \<open>
  The three-page feed of the specification (\<^verbatim>\<open>more:true,next:"a"\<close>, then
  \<^verbatim>\<open>more:true,next:"b"\<close>, then \<^verbatim>\<open>more:false\<close>): all records of the three pages in page order,
  and exactly three requests.
\<close>

theorem fetch_all_pages_witness:
  "serves three_page_feed Base three_pages \<and>
   fetch_stix_objects three_page_feed =
     Some (Inr [JStr ''o1'', JStr ''o2'', JStr ''o3'', JStr ''o4''],
           [Base, Next (JStr ''a''), Next (JStr ''b'')]) \<and>
   length [Base, Next (JStr ''a''), Next (JStr ''b'')] = 3"
proof -
  have s: "serves three_page_feed Base three_pages"
    by (simp add: three_pages_def three_page_feed_def)
  from fetch_all_pages [OF s] s show ?thesis
    by (simp add: three_pages_def)
qed

text \<open>
  C6 (reference edge before its endpoints). When the store does not refuse the
  transaction: a reference-edge upsert whose source or target matches no vertex raises
  nothing and leaves the graph unchanged; when vertices \<open>i\<close> and \<open>j\<close> match the source and
  the target, the upsert raises nothing and afterwards a \<^verbatim>\<open>REFERENCES\<close> edge joins \<open>i\<close> to \<open>j\<close>;
  and when \<open>i\<close> and \<open>j\<close> are the only matches and no such edge was there, the upsert adds
  exactly that one edge.
\<close>

theorem reference_edge_waits_for_endpoints:
  "(\<not> refuses_next s \<and>
    (match_ids (vertices (graph_of s)) src = [] \<or> match_ids (vertices (graph_of s)) tgt = []) \<longrightarrow>
      fst (execute_write (CreateRelationship src tgt ''REFERENCES'') s) = None \<and>
      graph_of (snd (execute_write (CreateRelationship src tgt ''REFERENCES'') s)) = graph_of s) \<and>
   (\<not> refuses_next s \<and> i \<in> set (match_ids (vertices (graph_of s)) src) \<and>
    j \<in> set (match_ids (vertices (graph_of s)) tgt) \<longrightarrow>
      fst (execute_write (CreateRelationship src tgt ''REFERENCES'') s) = None \<and>
      list_ex (edge_hit i j ''REFERENCES'')
        (edges (graph_of (snd (execute_write (CreateRelationship src tgt ''REFERENCES'') s))))) \<and>
   (\<not> refuses_next s \<and> match_ids (vertices (graph_of s)) src = [i] \<and>
    match_ids (vertices (graph_of s)) tgt = [j] \<and>
    \<not> list_ex (edge_hit i j ''REFERENCES'') (edges (graph_of s)) \<longrightarrow>
      graph_of (snd (execute_write (CreateRelationship src tgt ''REFERENCES'') s)) =
        (graph_of s)\<lparr>edges := edges (graph_of s) @
           [\<lparr>e_src = i, e_tgt = j, e_type = ''REFERENCES'', e_props = Map.empty\<rparr>]\<rparr>)"
  using reference_edge_noop [of "graph_of s" src tgt]
    reference_edge_joins [of i "graph_of s" src j tgt]
    reference_edge_new [of "graph_of s" src i tgt j]
  by (simp add: reference_edge_accepted)

text \<open>
  The scenario of the specification: the edge from \<^verbatim>\<open>r1\<close> to \<^verbatim>\<open>i1\<close> is a no-op on the empty
  graph; once both vertices are there (but not yet the edge), the same upsert creates it.
\<close>

theorem reference_edge_waits_for_endpoints_witness:
  "\<not> refuses_next empty_store \<and>
   match_ids (vertices (graph_of empty_store)) (JStr ''r1'') = [] \<and>
   fst (execute_write (CreateRelationship (JStr ''r1'') (JStr ''i1'') ''REFERENCES'') empty_store) = None \<and>
   graph_of (snd (execute_write (CreateRelationship (JStr ''r1'') (JStr ''i1'') ''REFERENCES'') empty_store)) =
     graph_of empty_store \<and>
   \<not> refuses_next scenario_store \<and>
   match_ids (vertices (graph_of scenario_store)) (JStr ''r1'') = [0] \<and>
   match_ids (vertices (graph_of scenario_store)) (JStr ''i1'') = [1] \<and>
   \<not> list_ex (edge_hit 0 1 ''REFERENCES'') (edges (graph_of scenario_store)) \<and>
   graph_of (snd (execute_write (CreateRelationship (JStr ''r1'') (JStr ''i1'') ''REFERENCES'') scenario_store)) =
     (graph_of scenario_store)\<lparr>edges := edges (graph_of scenario_store) @
        [\<lparr>e_src = 0, e_tgt = 1, e_type = ''REFERENCES'', e_props = Map.empty\<rparr>]\<rparr>"
proof -
  have a: "\<not> refuses_next empty_store \<and>
           match_ids (vertices (graph_of empty_store)) (JStr ''r1'') = []"
    by code_simp
  have b: "\<not> refuses_next scenario_store \<and>
           match_ids (vertices (graph_of scenario_store)) (JStr ''r1'') = [0] \<and>
           match_ids (vertices (graph_of scenario_store)) (JStr ''i1'') = [1] \<and>
           \<not> list_ex (edge_hit 0 1 ''REFERENCES'') (edges (graph_of scenario_store))"
    by code_simp
  from reference_edge_waits_for_endpoints [of empty_store "JStr ''r1''" "JStr ''i1''" 0 1]
    reference_edge_waits_for_endpoints [of scenario_store "JStr ''r1''" "JStr ''i1''" 0 1] a b
  show ?thesis by blast
qed




text \<open>
  C8 (one vertex per id), as the claim states it, fails on the code: two records with the
  same id and the type tags \<^verbatim>\<open>malware\<close> and \<^verbatim>\<open>tool\<close>, loaded into the empty graph, leave two
  vertices with that id, one per label.
\<close>

theorem same_id_other_type_makes_second_vertex:
  "malware_x1 ''id'' = Some (JStr ''x1'') \<and> tool_x1 ''id'' = Some (JStr ''x1'') \<and>
   match_ids (vertices (graph_of (process_objects [malware_x1, tool_x1] empty_store))) (JStr ''x1'') = [0, 1] \<and>
   map v_labels (vertices (graph_of (process_objects [malware_x1, tool_x1] empty_store))) =
     [[''malware''], [''tool'']]"
proof (intro conjI)
  show "malware_x1 ''id'' = Some (JStr ''x1'')" by (simp add: malware_x1_def)
  show "tool_x1 ''id'' = Some (JStr ''x1'')" by (simp add: tool_x1_def)
  show "match_ids (vertices (graph_of (process_objects [malware_x1, tool_x1] empty_store))) (JStr ''x1'') = [0, 1]"
    by code_simp
  show "map v_labels (vertices (graph_of (process_objects [malware_x1, tool_x1] empty_store))) =
     [[''malware''], [''tool'']]"
    by code_simp
qed

text \<open>
  C8 as amended, for records whose spliced names the model parses (for a record that is
  not a relationship: whose type, hyphens replaced, is a plain identifier or is rejected
  by the store). At most one vertex exists per label and id: when no two vertices of the
  graph share a label and an id, the same holds after any sequence of such records has
  been processed (whatever the store refuses), that is, two positions of the vertex list
  that both match a label and an id are the same position. A node upsert whose label and
  id match a vertex creates no vertex: it merges the record's scalar properties into the
  matching vertices and leaves every other vertex as it is. And a node upsert whose
  label and id match no vertex creates one vertex with that label and id, whatever
  vertices carry the id under other labels.
\<close>

theorem one_vertex_per_label_and_id:
  "(one_per_key (vertices (graph_of s)) \<and> list_all names_parsed objs \<longrightarrow>
      one_per_key (vertices (graph_of (process_objects objs s))) \<and>
      (\<forall>i j l x. i < length (vertices (graph_of (process_objects objs s))) \<and>
                 j < length (vertices (graph_of (process_objects objs s))) \<and>
                 node_hit l x (vertices (graph_of (process_objects objs s)) ! i) \<and>
                 node_hit l x (vertices (graph_of (process_objects objs s)) ! j) \<longrightarrow> i = j)) \<and>
   (as_str (dict_get obj ''type'' (JStr ''STIXObject'')) = Inr t \<and> obj ''id'' = Some x \<and>
    cypher_name_ok (node_label t) \<and> storable x \<and>
    list_ex (node_hit (node_label t) x) (vertices g) \<longrightarrow>
      create_node obj g =
        Inr (g\<lparr>vertices :=
               map (\<lambda>v. if node_hit (node_label t) x v
                         then v\<lparr>v_props := v_props v ++ scalar_props obj\<rparr> else v)
                   (vertices g)\<rparr>)) \<and>
   (as_str (dict_get obj ''type'' (JStr ''STIXObject'')) = Inr t \<and> obj ''id'' = Some x \<and>
    cypher_name_ok (node_label t) \<and> storable x \<and>
    \<not> list_ex (node_hit (node_label t) x) (vertices g) \<longrightarrow>
      create_node obj g =
        Inr (g\<lparr>vertices := vertices g @
               [\<lparr>v_labels = [node_label t], v_props = [''id'' \<mapsto> x] ++ scalar_props obj\<rparr>]\<rparr>))"
proof -
  have a: "one_per_key (vertices (graph_of (process_objects objs s)))"
    if "one_per_key (vertices (graph_of s))" "list_all names_parsed objs"
    using that by (rule process_objects_one_per_key)
  have b: "i = j"
    if "one_per_key (vertices (graph_of s))" "list_all names_parsed objs"
       "i < length (vertices (graph_of (process_objects objs s)))"
       "j < length (vertices (graph_of (process_objects objs s)))"
       "node_hit l x (vertices (graph_of (process_objects objs s)) ! i)"
       "node_hit l x (vertices (graph_of (process_objects objs s)) ! j)" for i j l x
    using a [OF that(1,2)] that(3-6) by (rule one_per_key_unique)
  from a b create_node_matched [of obj t x g] create_node_created [of obj t x g]
  show ?thesis by blast
qed

theorem one_vertex_per_label_and_id_witness:
  "one_per_key (vertices (graph_of empty_store)) \<and>
   list_all names_parsed [malware_x1, tool_x1, malware_x1] \<and>
   one_per_key (vertices (graph_of (process_objects [malware_x1, tool_x1, malware_x1] empty_store))) \<and>
   as_str (dict_get malware_x1 ''type'' (JStr ''STIXObject'')) = Inr ''malware'' \<and>
   malware_x1 ''id'' = Some (JStr ''x1'') \<and>
   cypher_name_ok (node_label ''malware'') \<and> storable (JStr ''x1'') \<and>
   list_ex (node_hit (node_label ''malware'') (JStr ''x1''))
     (vertices (graph_of (process_objects [malware_x1] empty_store))) \<and>
   create_node malware_x1 (graph_of (process_objects [malware_x1] empty_store)) =
     Inr ((graph_of (process_objects [malware_x1] empty_store))\<lparr>vertices :=
            map (\<lambda>v. if node_hit (node_label ''malware'') (JStr ''x1'') v
                      then v\<lparr>v_props := v_props v ++ scalar_props malware_x1\<rparr> else v)
                (vertices (graph_of (process_objects [malware_x1] empty_store)))\<rparr>) \<and>
   as_str (dict_get tool_x1 ''type'' (JStr ''STIXObject'')) = Inr ''tool'' \<and>
   tool_x1 ''id'' = Some (JStr ''x1'') \<and>
   cypher_name_ok (node_label ''tool'') \<and>
   match_ids (vertices (graph_of (process_objects [malware_x1] empty_store))) (JStr ''x1'') = [0] \<and>
   \<not> list_ex (node_hit (node_label ''tool'') (JStr ''x1''))
     (vertices (graph_of (process_objects [malware_x1] empty_store))) \<and>
   create_node tool_x1 (graph_of (process_objects [malware_x1] empty_store)) =
     Inr ((graph_of (process_objects [malware_x1] empty_store))\<lparr>vertices :=
            vertices (graph_of (process_objects [malware_x1] empty_store)) @
            [\<lparr>v_labels = [node_label ''tool''],
              v_props = [''id'' \<mapsto> JStr ''x1''] ++ scalar_props tool_x1\<rparr>]\<rparr>)"
proof -
  have h0: "list_all names_parsed [malware_x1, tool_x1, malware_x1]"
    by code_simp
  have h1: "one_per_key (vertices (graph_of empty_store))"
    by (simp add: empty_store_def)
  have h2: "as_str (dict_get malware_x1 ''type'' (JStr ''STIXObject'')) = Inr ''malware''"
    by (simp add: malware_x1_def dict_get_def)
  have h3: "malware_x1 ''id'' = Some (JStr ''x1'')"
    by (simp add: malware_x1_def)
  have h4: "cypher_name_ok (node_label ''malware'')"
    by code_simp
  have h5: "storable (JStr ''x1'')"
    by simp
  have h6: "list_ex (node_hit (node_label ''malware'') (JStr ''x1''))
     (vertices (graph_of (process_objects [malware_x1] empty_store)))"
    by code_simp
  note t1 = one_vertex_per_label_and_id [of empty_store "[malware_x1, tool_x1, malware_x1]"]
  note t2 = one_vertex_per_label_and_id [of _ _ malware_x1 "''malware''" "JStr ''x1''"
      "graph_of (process_objects [malware_x1] empty_store)"]
  have q1: "one_per_key (vertices (graph_of (process_objects [malware_x1, tool_x1, malware_x1] empty_store)))"
    by (rule t1 [THEN conjunct1, THEN mp, THEN conjunct1]) (intro conjI h1 h0)
  have q2: "create_node malware_x1 (graph_of (process_objects [malware_x1] empty_store)) =
     Inr ((graph_of (process_objects [malware_x1] empty_store))\<lparr>vertices :=
            map (\<lambda>v. if node_hit (node_label ''malware'') (JStr ''x1'') v
                      then v\<lparr>v_props := v_props v ++ scalar_props malware_x1\<rparr> else v)
                (vertices (graph_of (process_objects [malware_x1] empty_store)))\<rparr>)"
    by (rule t2 [THEN conjunct2, THEN conjunct1, THEN mp]) (intro conjI h2 h3 h4 h5 h6)
  have j2: "as_str (dict_get tool_x1 ''type'' (JStr ''STIXObject'')) = Inr ''tool''"
    by (simp add: tool_x1_def dict_get_def)
  have j3: "tool_x1 ''id'' = Some (JStr ''x1'')"
    by (simp add: tool_x1_def)
  have j4: "cypher_name_ok (node_label ''tool'')"
    by code_simp
  have j5: "match_ids (vertices (graph_of (process_objects [malware_x1] empty_store))) (JStr ''x1'') = [0]"
    by code_simp
  have j6: "\<not> list_ex (node_hit (node_label ''tool'') (JStr ''x1''))
     (vertices (graph_of (process_objects [malware_x1] empty_store)))"
    by code_simp
  note t3 = one_vertex_per_label_and_id [of _ _ tool_x1 "''tool''" "JStr ''x1''"
      "graph_of (process_objects [malware_x1] empty_store)"]
  have q3: "create_node tool_x1 (graph_of (process_objects [malware_x1] empty_store)) =
     Inr ((graph_of (process_objects [malware_x1] empty_store))\<lparr>vertices :=
            vertices (graph_of (process_objects [malware_x1] empty_store)) @
            [\<lparr>v_labels = [node_label ''tool''],
              v_props = [''id'' \<mapsto> JStr ''x1''] ++ scalar_props tool_x1\<rparr>]\<rparr>)"
    by (rule t3 [THEN conjunct2, THEN conjunct2, THEN mp]) (intro conjI j2 j3 j4 h5 j6)
  show ?thesis
    by (intro conjI) (rule h1 h0 q1 h2 h3 h4 h5 h6 q2 j2 j3 j4 j5 j6 q3)+
qed

text \<open>
  C9 (record without a type). When a record has no \<^verbatim>\<open>type\<close> key, loading it issues exactly
  one write, the node upsert of the record; that upsert looks the record's id up (raising
  KeyError when there is none) and merges a vertex labelled \<^verbatim>\<open>STIXObject\<close>; and when the record
  has a storable id and the store does not refuse the transaction, nothing is raised and
  afterwards the graph has a vertex with the label \<^verbatim>\<open>STIXObject\<close> and that id.
\<close>

theorem typeless_record_gets_default_label:
  assumes "obj ''type'' = None"
  shows "issued (snd (load_stix_object obj s)) = issued s @ [CreateNode obj] \<and>
         create_node obj g =
           (case obj ''id'' of None \<Rightarrow> Inl KeyError
            | Some x \<Rightarrow> merge_node ''STIXObject'' x (scalar_props obj) g) \<and>
         (\<forall>x. obj ''id'' = Some x \<and> storable x \<and> \<not> refuses_next s \<longrightarrow>
              fst (load_body obj s) = None \<and>
              list_ex (node_hit ''STIXObject'' x)
                (vertices (graph_of (snd (load_stix_object obj s)))))"
proof -
  have nr: "dict_get obj ''type'' (JStr []) \<noteq> JStr ''relationship'' \<and>
     dict_get obj ''type'' (JStr []) \<noteq> JStr ''report''"
    using assms by (simp add: dict_get_def)
  have cnt: "create_node obj g =
     (case obj ''id'' of None \<Rightarrow> Inl KeyError
      | Some x \<Rightarrow> merge_node ''STIXObject'' x (scalar_props obj) g)" for g
    using assms by (simp add: create_node_def dict_get_def node_label_stixobject)
  have l: "snd (load_stix_object obj s) = snd (execute_write (CreateNode obj) s)"
    using nr by (simp add: load_entity_only_node)
  have a: "issued (snd (load_stix_object obj s)) = issued s @ [CreateNode obj]"
    by (simp add: l execute_write_issued)
  have c: "fst (load_body obj s) = None \<and>
           list_ex (node_hit ''STIXObject'' x) (vertices (graph_of (snd (load_stix_object obj s))))"
    if x: "obj ''id'' = Some x" and st: "storable x" and nf: "\<not> refuses_next s" for x
  proof -
    from merge_node_succeeds [OF stixobject_ok st]
    obtain g' where m: "merge_node ''STIXObject'' x (scalar_props obj) (graph_of s) = Inr g'"
      by blast
    then have cn: "create_node obj (graph_of s) = Inr g'"
      by (simp add: cnt x)
    have ew: "execute_write (CreateNode obj) s =
        (None, s\<lparr>faults := tl (faults s), issued := issued s @ [CreateNode obj], graph_of := g'\<rparr>)"
      using nf cn by (simp add: execute_write_accepted)
    have "list_ex (node_hit ''STIXObject'' x) (vertices g')"
      using m scalar_props_id [of obj x] x by (intro merge_node_hit) simp_all
    then show ?thesis
      using nr by (simp add: l ew load_body_entity)
  qed
  show ?thesis
    using a cnt [of g] c by blast
qed

theorem typeless_record_gets_default_label_witness:
  "typeless_t1 ''type'' = None \<and>
   issued (snd (load_stix_object typeless_t1 empty_store)) = [CreateNode typeless_t1] \<and>
   list_ex (node_hit ''STIXObject'' (JStr ''t1''))
     (vertices (graph_of (snd (load_stix_object typeless_t1 empty_store))))"
proof -
  have t: "typeless_t1 ''type'' = None"
    by (simp add: typeless_t1_def)
  have h: "typeless_t1 ''id'' = Some (JStr ''t1'') \<and> storable (JStr ''t1'') \<and> \<not> refuses_next empty_store"
    by (simp add: typeless_t1_def empty_store_def refuses_next_def)
  from typeless_record_gets_default_label [of typeless_t1 empty_store] h t show ?thesis
    by (simp add: empty_store_def)
qed

text \<open>
  C10 (no exception reaches the caller). For every record, every store and every fault
  list, \<open>load_stix_object\<close> returns without an exception. In particular, for a record that
  is not a relationship and has no \<^verbatim>\<open>id\<close>, the node upsert raises inside the body, the graph
  is left as it was, and the records after it are processed exactly as if processing had
  started from the store with that one transaction used up.
\<close>

theorem load_stix_object_never_raises:
  "fst (load_stix_object obj s) = None \<and>
   (obj ''id'' = None \<and> dict_get obj ''type'' (JStr '''') \<noteq> JStr ''relationship'' \<longrightarrow>
      fst (load_body obj s) \<noteq> None \<and>
      graph_of (snd (load_stix_object obj s)) = graph_of s \<and>
      graph_of (process_objects (obj # objs) s) =
        graph_of (process_objects objs (s\<lparr>faults := tl (faults s)\<rparr>)))"
proof -
  have b: "fst (load_body obj s) \<noteq> None \<and>
      graph_of (snd (load_stix_object obj s)) = graph_of s \<and>
      graph_of (process_objects (obj # objs) s) =
        graph_of (process_objects objs (s\<lparr>faults := tl (faults s)\<rparr>))"
    if i: "obj ''id'' = None" and t: "dict_get obj ''type'' (JStr '''') \<noteq> JStr ''relationship''"
  proof -
    have f: "fst (execute_write (CreateNode obj) s) \<noteq> None"
      using i by (rule node_upsert_without_id)
    have lb: "load_body obj s = execute_write (CreateNode obj) s"
      using t f by (rule load_body_node_failed)
    have st: "snd (load_stix_object obj s) =
        s\<lparr>faults := tl (faults s), issued := issued s @ [CreateNode obj]\<rparr>"
      by (simp add: load_stix_object_snd lb execute_write_failed_store [OF f])
    have "same_db (snd (load_stix_object obj s)) (s\<lparr>faults := tl (faults s)\<rparr>)"
      by (simp add: st same_db_def)
    then have "same_db (process_objects objs (snd (load_stix_object obj s)))
        (process_objects objs (s\<lparr>faults := tl (faults s)\<rparr>))"
      by (rule process_objects_same)
    then show ?thesis
      using f by (simp add: lb st same_db_def)
  qed
  show ?thesis
    using load_stix_object_fst [of obj s] b by blast
qed

theorem load_stix_object_never_raises_witness:
  "idless_u1 ''id'' = None \<and>
   dict_get idless_u1 ''type'' (JStr '''') \<noteq> JStr ''relationship'' \<and>
   fst (load_stix_object idless_u1 empty_store) = None \<and>
   fst (load_body idless_u1 empty_store) \<noteq> None \<and>
   graph_of (snd (load_stix_object idless_u1 empty_store)) = graph_of empty_store \<and>
   graph_of (process_objects [idless_u1, indicator_i1] empty_store) =
     graph_of (process_objects [indicator_i1] (empty_store\<lparr>faults := tl (faults empty_store)\<rparr>))"
proof -
  have h: "idless_u1 ''id'' = None \<and>
           dict_get idless_u1 ''type'' (JStr '''') \<noteq> JStr ''relationship''"
    by (simp add: idless_u1_def dict_get_def)
  from load_stix_object_never_raises [of idless_u1 empty_store "[indicator_i1]"] h
  show ?thesis by blast
qed

end
